theory Spec2Isabelle
  imports Main "HOL-Library.AList"
begin

section \<open>Python strings\<close>

text \<open>
  A Python \<open>str\<close> is a sequence of Unicode code points.  The validator tests for code
  points in U+0400..U+04FF, which do not fit Isabelle's 8-bit \<open>char\<close>, so a string is a
  list of code points, each a natural number.  \<open>u\<close> turns an ASCII literal into such a
  string.
\<close>

type_synonym ustr = "nat list"

definition u :: "string \<Rightarrow> ustr" where
  "u s = map of_char s"

text \<open>\<open>str.isspace\<close> on one code point; \<open>str.strip()\<close> and the regex class \<open>\s\<close> both use it.\<close>

definition is_space :: "nat \<Rightarrow> bool" where
  "is_space c \<longleftrightarrow>
     (9 \<le> c \<and> c \<le> 13) \<or> (28 \<le> c \<and> c \<le> 32) \<or> c = 133 \<or> c = 160 \<or> c = 5760 \<or>
     (8192 \<le> c \<and> c \<le> 8202) \<or> c = 8232 \<or> c = 8233 \<or> c = 8239 \<or> c = 8287 \<or> c = 12288"

definition lstrip :: "ustr \<Rightarrow> ustr" where
  "lstrip s = dropWhile is_space s"

definition rstrip :: "ustr \<Rightarrow> ustr" where
  "rstrip s = rev (dropWhile is_space (rev s))"

definition strip :: "ustr \<Rightarrow> ustr" where
  "strip s = rstrip (lstrip s)"

text \<open>\<open>s.split("\n")\<close>: always at least one piece.\<close>

fun split_nl :: "ustr \<Rightarrow> ustr list" where
  "split_nl [] = [[]]"
| "split_nl (c # cs) =
     (if c = 10 then [] # split_nl cs
      else (case split_nl cs of l # ls \<Rightarrow> (c # l) # ls | [] \<Rightarrow> [[c]]))"

text \<open>\<open>"\n".join(lines)\<close>.\<close>

fun join_nl :: "ustr list \<Rightarrow> ustr" where
  "join_nl [] = []"
| "join_nl [l] = l"
| "join_nl (l # ls) = l @ 10 # join_nl ls"

section \<open>validation.py\<close>

datatype error =
    InvalidNameError
  | InvalidHeadingError
  | BrokenLinkError
  | NoteNotFoundError
  | SectionNotFoundError
  | TextNotFoundError
  | NoteAlreadyExistsError
  | ValueError
  | IndexError
  | AssertionError
  | AttributeError
  | ReError
  | OSError

record validation_warning =
  line :: nat
  message :: ustr
  rule :: ustr

subsection \<open>The regular expressions of \<open>Validator\<close>\<close>

text \<open>
  Every pattern below is applied with \<open>match\<close> to one element of \<open>content.split("\n")\<close>,
  which holds no newline; on such a line \<open>.\<close> matches every character and \<open>$\<close> only
  the end.  Each function returns what the capture groups hold after Python's
  backtracking search.

  \<open>_FENCE_RE = ^(`{3,})\<close>: the group is the whole leading run of backticks.
\<close>

definition fence_re_match :: "ustr \<Rightarrow> nat option" where
  "fence_re_match ln =
     (let n = length (takeWhile (\<lambda>c. c = 96) ln) in if 3 \<le> n then Some n else None)"

text \<open>
  \<open>_HEADING_RE = ^(#+)\s+(.+)$\<close>.  Group 1 is the whole leading run of \<open>#\<close> (the next
  character has to be white space).  \<open>\s+\<close> is greedy: group 2 is what follows the run of
  white space, and when nothing follows, \<open>\s+\<close> gives its last character back to \<open>.+\<close>.
  The result is the length of group 1 and group 2.
\<close>

definition heading_re_match :: "ustr \<Rightarrow> (nat \<times> ustr) option" where
  "heading_re_match ln =
     (let hashes = takeWhile (\<lambda>c. c = 35) ln;
          after = dropWhile (\<lambda>c. c = 35) ln;
          spaces = takeWhile is_space after;
          rest = dropWhile is_space after
      in if hashes = [] \<or> spaces = [] then None
         else if rest \<noteq> [] then Some (length hashes, rest)
         else if 2 \<le> length spaces then Some (length hashes, [last spaces])
         else None)"

text \<open>\<open>_TABLE_LINE_RE = ^\|.*\|$\<close>.\<close>

definition table_line_re_match :: "ustr \<Rightarrow> bool" where
  "table_line_re_match ln \<longleftrightarrow> 2 \<le> length ln \<and> hd ln = 124 \<and> last ln = 124"

text \<open>\<open>_TABLE_SEP_RE = ^\|[-:| ]+\|$\<close>.\<close>

definition table_sep_re_match :: "ustr \<Rightarrow> bool" where
  "table_sep_re_match ln \<longleftrightarrow>
     3 \<le> length ln \<and> hd ln = 124 \<and> last ln = 124 \<and>
     list_all (\<lambda>c. c = 45 \<or> c = 58 \<or> c = 124 \<or> c = 32) (butlast (tl ln))"

text \<open>\<open>_CYRILLIC_RE.search(s)\<close>, where \<open>_CYRILLIC_RE\<close> is the class of the code points U+0400 to U+04FF.\<close>

definition cyrillic_search :: "ustr \<Rightarrow> bool" where
  "cyrillic_search s \<longleftrightarrow> list_ex (\<lambda>c. 1024 \<le> c \<and> c \<le> 1279) s"

text \<open>
  \<open>_ALLOWED_NAME_RE = ^[a-zA-Z0-9 _@\-{TASKS_EMOJIS}]+$\<close>, applied to a whole note name
  (which may hold a newline, and \<open>$\<close> also matches just before a final newline).  The
  constant \<open>TASKS_EMOJIS\<close> is a parameter: the list of its code points.
\<close>

definition allowed_name_char :: "nat list \<Rightarrow> nat \<Rightarrow> bool" where
  "allowed_name_char emojis c \<longleftrightarrow>
     (97 \<le> c \<and> c \<le> 122) \<or> (65 \<le> c \<and> c \<le> 90) \<or> (48 \<le> c \<and> c \<le> 57) \<or>
     c = 32 \<or> c = 95 \<or> c = 64 \<or> c = 45 \<or> c \<in> set emojis"

definition allowed_name_re_match :: "nat list \<Rightarrow> ustr \<Rightarrow> bool" where
  "allowed_name_re_match emojis nm \<longleftrightarrow>
     (nm \<noteq> [] \<and> list_all (allowed_name_char emojis) nm) \<or>
     (nm \<noteq> [] \<and> last nm = 10 \<and> butlast nm \<noteq> [] \<and>
      list_all (allowed_name_char emojis) (butlast nm))"

subsection \<open>\<open>Validator\<close>\<close>

definition validate_name :: "nat list \<Rightarrow> ustr \<Rightarrow> error + unit" where
  "validate_name emojis nm =
     (if cyrillic_search nm then Inl InvalidNameError
      else if \<not> allowed_name_re_match emojis nm then Inl InvalidNameError
      else Inr ())"

text \<open>
  \<open>_parse_code_blocks\<close>: the four local variables of the loop are the fields of
  \<open>fence_state\<close>.  \<open>stack\<close> grows at its end, as the Python list does; \<open>stack.pop()\<close> on
  an empty list raises \<open>IndexError\<close>.
\<close>

record fence_state =
  closed_ranges :: "(nat \<times> nat) list"
  stack :: "(nat \<times> nat) list"
  in_code_block :: bool
  current_fence_length :: nat

definition fence_init :: fence_state where
  "fence_init =
     \<lparr>closed_ranges = [], stack = [], in_code_block = False, current_fence_length = 0\<rparr>"

fun parse_code_blocks_loop :: "nat \<Rightarrow> ustr list \<Rightarrow> fence_state \<Rightarrow> error + fence_state" where
  "parse_code_blocks_loop i [] st = Inr st"
| "parse_code_blocks_loop i (ln # rest) st =
     (case fence_re_match ln of
        None \<Rightarrow> parse_code_blocks_loop (i + 1) rest st
      | Some backtick_count \<Rightarrow>
          if \<not> in_code_block st then
            parse_code_blocks_loop (i + 1) rest
              (st\<lparr>stack := stack st @ [(i + 1, backtick_count)],
                  in_code_block := True,
                  current_fence_length := backtick_count\<rparr>)
          else if current_fence_length st \<le> backtick_count then
            (if stack st = [] then Inl IndexError
             else parse_code_blocks_loop (i + 1) rest
               (st\<lparr>closed_ranges := closed_ranges st @ [(fst (last (stack st)), i + 1)],
                   stack := butlast (stack st),
                   in_code_block := False,
                   current_fence_length := 0\<rparr>))
          else parse_code_blocks_loop (i + 1) rest st)"

definition parse_code_blocks :: "ustr list \<Rightarrow> error + ((nat \<times> nat) list \<times> nat list)" where
  "parse_code_blocks lines =
     (case parse_code_blocks_loop 0 lines fence_init of
        Inl e \<Rightarrow> Inl e
      | Inr st \<Rightarrow> Inr (closed_ranges st, map fst (stack st)))"

definition is_inside_code_block :: "nat \<Rightarrow> (nat \<times> nat) list \<Rightarrow> bool" where
  "is_inside_code_block line_num ranges \<longleftrightarrow>
     list_ex (\<lambda>(start, end). start < line_num \<and> line_num < end) ranges"

text \<open>\<open>_check_tables\<close>: one pass of the \<open>for\<close> loop appends no warning or one.\<close>

definition check_tables_at :: "ustr list \<Rightarrow> (nat \<times> nat) list \<Rightarrow> nat \<Rightarrow> validation_warning list" where
  "check_tables_at lines ranges i =
     (if is_inside_code_block (i + 1) ranges then []
      else if table_line_re_match (lines ! i) \<and> table_sep_re_match (lines ! (i + 1)) then
        (if i = 0 then []
         else if strip (lines ! (i - 1)) \<noteq> [] then
           [\<lparr>line = i + 1, message = u ''Table should have blank line before it'',
             rule = u ''table-blank-line''\<rparr>]
         else [])
      else [])"

definition check_tables :: "ustr list \<Rightarrow> (nat \<times> nat) list \<Rightarrow> validation_warning list" where
  "check_tables lines ranges = concat (map (check_tables_at lines ranges) [0..<length lines - 1])"

definition unclosed_warning :: "nat \<Rightarrow> validation_warning" where
  "unclosed_warning line_num =
     \<lparr>line = line_num, message = u ''Unclosed fenced code block'',
      rule = u ''unclosed-code-block''\<rparr>"

definition validate :: "ustr \<Rightarrow> error + validation_warning list" where
  "validate content =
     (let lines = split_nl content in
      case parse_code_blocks lines of
        Inl e \<Rightarrow> Inl e
      | Inr (code_block_ranges, unclosed) \<Rightarrow>
          Inr (map unclosed_warning unclosed @ check_tables lines code_block_ranges))"

fun validate_headings_loop :: "(nat \<times> nat) list \<Rightarrow> nat \<Rightarrow> ustr list \<Rightarrow> error + unit" where
  "validate_headings_loop ranges i [] = Inr ()"
| "validate_headings_loop ranges i (ln # rest) =
     (if is_inside_code_block (i + 1) ranges then validate_headings_loop ranges (i + 1) rest
      else (case heading_re_match ln of
              None \<Rightarrow> validate_headings_loop ranges (i + 1) rest
            | Some (level, heading_text) \<Rightarrow>
                if cyrillic_search heading_text then Inl InvalidHeadingError
                else validate_headings_loop ranges (i + 1) rest))"

definition validate_headings :: "ustr \<Rightarrow> error + unit" where
  "validate_headings content =
     (let lines = split_nl content in
      case parse_code_blocks lines of
        Inl e \<Rightarrow> Inl e
      | Inr (code_block_ranges, unclosed) \<Rightarrow> validate_headings_loop code_block_ranges 0 lines)"

section \<open>The fence-aware scans of operations.py\<close>

record heading =
  level :: nat
  "text" :: ustr

text \<open>
  The loop of \<open>get_headings\<close> over the lines of the body; \<open>in_cb\<close> and \<open>fence_len\<close> are
  its variables \<open>in_code_block\<close> and \<open>current_fence_len\<close>.
\<close>

fun get_headings_loop :: "ustr list \<Rightarrow> bool \<Rightarrow> nat \<Rightarrow> heading list \<Rightarrow> heading list" where
  "get_headings_loop [] in_cb fence_len headings = headings"
| "get_headings_loop (ln # rest) in_cb fence_len headings =
     (case fence_re_match ln of
        Some backticks \<Rightarrow>
          if \<not> in_cb then get_headings_loop rest True backticks headings
          else if fence_len \<le> backticks then get_headings_loop rest False 0 headings
          else get_headings_loop rest in_cb fence_len headings
      | None \<Rightarrow>
          if in_cb then get_headings_loop rest in_cb fence_len headings
          else (case heading_re_match ln of
                  Some (lvl, txt) \<Rightarrow>
                    get_headings_loop rest in_cb fence_len
                      (headings @ [\<lparr>level = lvl, text = strip txt\<rparr>])
                | None \<Rightarrow> get_headings_loop rest in_cb fence_len headings))"

definition headings_of_body :: "ustr \<Rightarrow> heading list" where
  "headings_of_body body = get_headings_loop (split_nl body) False 0 []"

subsection \<open>\<open>_find_section_bounds\<close>\<close>

text \<open>
  \<open>search_re = ^(#+)\s*<re.escape(section_stripped)>\s*$\<close>, matched against a stripped line.
  It is built only when \<open>section_stripped\<close> does not start with \<open>#\<close>; that string has no
  white space at either end, so the only way to match is with the whole run of \<open>#\<close> in
  group 1 and the whole run of white space after it.  The result is the length of group 1.
\<close>

definition search_re_match :: "ustr \<Rightarrow> ustr \<Rightarrow> nat option" where
  "search_re_match section_stripped line_stripped =
     (let hashes = takeWhile (\<lambda>c. c = 35) line_stripped;
          after = dropWhile is_space (dropWhile (\<lambda>c. c = 35) line_stripped)
      in if hashes \<noteq> [] \<and> take (length section_stripped) after = section_stripped \<and>
            list_all is_space (drop (length section_stripped) after)
         then Some (length hashes) else None)"

text \<open>The first loop: the first line that matches gives \<open>start\<close> and \<open>found_level\<close>.\<close>

fun search_loop :: "(ustr \<Rightarrow> nat option) \<Rightarrow> nat \<Rightarrow> ustr list \<Rightarrow> (nat \<times> nat) option" where
  "search_loop m i [] = None"
| "search_loop m i (ln # rest) =
     (case m (strip ln) of
        Some found_level \<Rightarrow> Some (i + 1, found_level)
      | None \<Rightarrow> search_loop m (i + 1) rest)"

text \<open>
  \<open>heading_re = ^#{1,found_level}\s\<close>, matched against a line as it is: between one and
  \<open>found_level\<close> \<open>#\<close>, then a white-space character.
\<close>

definition end_re_match :: "nat \<Rightarrow> ustr \<Rightarrow> bool" where
  "end_re_match found_level ln \<longleftrightarrow>
     (let k = length (takeWhile (\<lambda>c. c = 35) ln)
      in 1 \<le> k \<and> k \<le> found_level \<and> k < length ln \<and> is_space (ln ! k))"

text \<open>The second loop, over \<open>lines[start:]\<close>; \<open>end\<close> stays \<open>len(lines)\<close> when no line matches.\<close>

fun end_loop :: "nat \<Rightarrow> nat \<Rightarrow> ustr list \<Rightarrow> nat" where
  "end_loop found_level i [] = i"
| "end_loop found_level i (ln # rest) =
     (if end_re_match found_level ln then i else end_loop found_level (i + 1) rest)"

definition find_section_bounds :: "ustr list \<Rightarrow> ustr \<Rightarrow> error + (nat \<times> nat \<times> nat)" where
  "find_section_bounds lines section =
     (let section_stripped = strip section;
          found =
            (if section_stripped \<noteq> [] \<and> hd section_stripped = 35 then
               (let heading_level =
                      length section_stripped
                        - length (dropWhile (\<lambda>c. c = 35) section_stripped)
                in search_loop
                     (\<lambda>line_stripped.
                        if line_stripped = section_stripped then Some heading_level else None)
                     0 lines)
             else search_loop (search_re_match section_stripped) 0 lines)
      in case found of
           None \<Rightarrow> Inl SectionNotFoundError
         | Some (start, found_level) \<Rightarrow>
             Inr (start, end_loop found_level start (drop start lines), found_level))"

text \<open>The slice \<open>lines[a:b]\<close> for \<open>a \<le> b\<close>.\<close>

definition slice :: "'a list \<Rightarrow> nat \<Rightarrow> nat \<Rightarrow> 'a list" where
  "slice xs a b = take (b - a) (drop a xs)"

section \<open>vault.py\<close>

subsection \<open>Files\<close>

text \<open>
  A path is the list of its parts below the vault directory, the name last; the empty
  path is the vault directory itself.  The file system is the list of what lies below
  the vault directory, in the order in which \<open>rglob\<close> yields it: every file, with its
  text, and every directory.  What is created where nothing was comes last in that
  order.
\<close>

type_synonym path = "ustr list"

datatype entry = File ustr | Dir

type_synonym filesystem = "(path \<times> entry) list"

definition is_dir :: "filesystem \<Rightarrow> path \<Rightarrow> bool" where
  "is_dir fs d \<longleftrightarrow> d = [] \<or> map_of fs d = Some Dir"

text \<open>
  \<open>Path.read_text\<close> opens the file in text mode, where a carriage return, alone or before a
  line feed, is read as a line feed.  It raises \<open>FileNotFoundError\<close> or
  \<open>IsADirectoryError\<close>, which are \<open>OSError\<close>.
\<close>

fun universal_newlines :: "ustr \<Rightarrow> ustr" where
  "universal_newlines (c # d # cs) =
     (if c = 13 \<and> d = 10 then 10 # universal_newlines cs
      else if c = 13 then 10 # universal_newlines (d # cs)
      else c # universal_newlines (d # cs))"
| "universal_newlines [c] = (if c = 13 then [10] else [c])"
| "universal_newlines [] = []"

definition read_text :: "filesystem \<Rightarrow> path \<Rightarrow> error + ustr" where
  "read_text fs p =
     (case map_of fs p of
        Some (File t) \<Rightarrow> Inr (universal_newlines t)
      | Some Dir \<Rightarrow> Inl OSError
      | None \<Rightarrow> Inl OSError)"

text \<open>
  \<open>Path.write_text\<close> creates the file or replaces its text; it fails on a directory and
  where the parent directory is missing.
\<close>

definition write_text :: "filesystem \<Rightarrow> path \<Rightarrow> ustr \<Rightarrow> error + filesystem" where
  "write_text fs p t =
     (if p = [] \<or> map_of fs p = Some Dir \<or> \<not> is_dir fs (butlast p) then Inl OSError
      else Inr (AList.update p (File t) fs))"

text \<open>\<open>Path.exists\<close>.\<close>

definition path_exists :: "filesystem \<Rightarrow> path \<Rightarrow> bool" where
  "path_exists fs p \<longleftrightarrow> p = [] \<or> map_of fs p \<noteq> None"

text \<open>
  \<open>Path.rename\<close> of a file replaces a file that is already at the target and fails on a
  directory there.  A directory is moved with all that lies below it, to a target that
  is free or an empty directory, and not below the directory itself.
\<close>

definition below :: "path \<Rightarrow> path \<Rightarrow> bool" where
  "below d q \<longleftrightarrow> take (length d) q = d"

definition move_tree :: "path \<Rightarrow> path \<Rightarrow> filesystem \<Rightarrow> filesystem" where
  "move_tree src dst fs =
     map (\<lambda>(q, e). if below src q then (dst @ drop (length src) q, e) else (q, e)) fs"

definition rename_path :: "filesystem \<Rightarrow> path \<Rightarrow> path \<Rightarrow> error + filesystem" where
  "rename_path fs src dst =
     (case map_of fs src of
        None \<Rightarrow> Inl OSError
      | Some Dir \<Rightarrow>
          if src = dst then Inr fs
          else if dst = [] \<or> \<not> is_dir fs (butlast dst) \<or> below src dst then Inl OSError
          else (case map_of fs dst of
                  None \<Rightarrow> Inr (move_tree src dst fs)
                | Some (File t) \<Rightarrow> Inl OSError
                | Some Dir \<Rightarrow>
                    if list_ex (\<lambda>q. below dst q \<and> q \<noteq> dst) (map fst fs) then Inl OSError
                    else Inr (move_tree src dst (AList.delete dst fs)))
      | Some (File t) \<Rightarrow>
          if src = dst then Inr fs
          else if dst = [] \<or> map_of fs dst = Some Dir \<or> \<not> is_dir fs (butlast dst)
          then Inl OSError
          else Inr (AList.update dst (File t) (AList.delete src fs)))"

text \<open>
  \<open>mkdir(exist_ok=True)\<close> fails when a file has the name of the directory and where the
  parent directory is missing.
\<close>

definition mkdir_exist_ok :: "filesystem \<Rightarrow> path \<Rightarrow> error + filesystem" where
  "mkdir_exist_ok fs d =
     (if is_dir fs d then Inr fs
      else if map_of fs d \<noteq> None \<or> \<not> is_dir fs (butlast d) then Inl OSError
      else Inr (fs @ [(d, Dir)]))"

subsection \<open>Notes and the parameters of the model\<close>

text \<open>
  A value that \<open>yaml.safe_load\<close> returns: a mapping, with its keys in the order of the
  document, a sequence, a string, or any other value (a number, a truth value, a date),
  kept as the text that stands for it in the document.  A dictionary is the list of its
  items.
\<close>

datatype yaml =
    YMap "(yaml \<times> yaml) list"
  | YList "yaml list"
  | YStr ustr
  | YOther ustr

type_synonym ydict = "(yaml \<times> yaml) list"

record Note =
  name :: ustr
  path :: path
  frontmatter :: ydict
  body :: ustr
  outgoing_links :: "ustr list"
  tags :: "ustr list"

text \<open>
  The libraries and the constant \<open>TASKS_EMOJIS\<close> are parameters.
  \<^item> \<open>yaml_safe_load s\<close> is \<open>yaml.safe_load(s) or {}\<close>, and \<open>{}\<close> when that raises
    \<open>YAMLError\<close>;
  \<^item> \<open>yaml_dump fm\<close> is \<open>yaml.dump(fm, default_flow_style=False, allow_unicode=True,
    sort_keys=False)\<close>;
  \<^item> \<open>py_str t\<close> is \<open>str(t)\<close>;
  \<^item> \<open>re_template new_name\<close> is what \<open>re\<close> makes of the replacement
    \<open>[[new_name\1]]\<close> when \<open>new_name\<close> holds a backslash: nothing when the template is
    refused with \<open>re.error\<close>, else the replacement text as a function of the text of
    the match and of group 1.
\<close>

record env =
  tasks_emojis :: "nat list"
  yaml_safe_load :: "ustr \<Rightarrow> yaml"
  yaml_dump :: "ydict \<Rightarrow> ustr"
  py_str :: "yaml \<Rightarrow> ustr"
  re_template :: "ustr \<Rightarrow> (ustr \<Rightarrow> ustr \<Rightarrow> ustr) option"

subsection \<open>Parsing a note\<close>

text \<open>
  \<open>find_sub pat s\<close> finds the first occurrence of \<open>pat\<close> in \<open>s\<close>: the text before it and
  the text after it.
\<close>

fun find_sub :: "ustr \<Rightarrow> ustr \<Rightarrow> (ustr \<times> ustr) option" where
  "find_sub pat [] = (if pat = [] then Some ([], []) else None)"
| "find_sub pat (c # cs) =
     (if take (length pat) (c # cs) = pat then Some ([], drop (length pat) (c # cs))
      else map_option (\<lambda>(before, after). (c # before, after)) (find_sub pat cs))"

text \<open>
  \<open>_FRONTMATTER_RE = \A---\n(.*?)\n---\n?(.*)\<close> with \<open>DOTALL\<close>: group 1 ends at the first
  \<open>\n---\<close> after the opening line, and group 2 is all that follows, less one newline.
\<close>

definition frontmatter_re_match :: "ustr \<Rightarrow> (ustr \<times> ustr) option" where
  "frontmatter_re_match raw =
     (if take 4 raw = u ''---\<newline>'' then
        (case find_sub (u ''\<newline>---'') (drop 4 raw) of
           None \<Rightarrow> None
         | Some (yaml_str, rest) \<Rightarrow>
             Some (yaml_str, if rest \<noteq> [] \<and> hd rest = 10 then tl rest else rest))
      else None)"

text \<open>
  \<open>_WIKILINK_RE = \[\[([^\]|#]+)\]\]\<close> tried at the start of \<open>s\<close>: the group is the whole
  run of characters other than \<open>]\<close>, \<open>|\<close> and \<open>#\<close> after \<open>[[\<close>, and \<open>]]\<close> has to follow
  it.  The result is the group and the text after the match.
\<close>

definition wikilink_re_match_at :: "ustr \<Rightarrow> (ustr \<times> ustr) option" where
  "wikilink_re_match_at s =
     (if take 2 s = u ''[['' then
        (let target = takeWhile (\<lambda>c. c \<noteq> 93 \<and> c \<noteq> 124 \<and> c \<noteq> 35) (drop 2 s);
             rest = dropWhile (\<lambda>c. c \<noteq> 93 \<and> c \<noteq> 124 \<and> c \<noteq> 35) (drop 2 s)
         in if target \<noteq> [] \<and> take 2 rest = u '']]'' then Some (target, drop 2 rest)
            else None)
      else None)"

lemma wikilink_re_match_at_shorter:
  "wikilink_re_match_at s = Some (target, rest) \<Longrightarrow> length rest < length s"
proof -
  assume a: "wikilink_re_match_at s = Some (target, rest)"
  let ?P = "\<lambda>c::nat. c \<noteq> 93 \<and> c \<noteq> 124 \<and> c \<noteq> 35"
  from a have r: "rest = drop 2 (dropWhile ?P (drop 2 s))" and s2: "take 2 s = u ''[[''"
    by (auto simp: wikilink_re_match_at_def Let_def split: if_splits)
  from s2 have "2 \<le> length s" by (cases s; cases "tl s") (auto simp: u_def)
  moreover have "length (dropWhile ?P (drop 2 s)) \<le> length (drop 2 s)"
    by (rule length_dropWhile_le)
  ultimately show ?thesis using r by simp
qed

text \<open>\<open>_WIKILINK_RE.findall(body)\<close>: the matches from left to right, none overlapping.\<close>

function extract_wikilinks :: "ustr \<Rightarrow> ustr list" where
  "extract_wikilinks [] = []"
| "extract_wikilinks (c # cs) =
     (case wikilink_re_match_at (c # cs) of
        Some (target, rest) \<Rightarrow> target # extract_wikilinks rest
      | None \<Rightarrow> extract_wikilinks cs)"
  by pat_completeness auto
termination
  by (relation "measure length") (auto dest: wikilink_re_match_at_shorter)

text \<open>\<open>raw.replace("\r\n", "\n")\<close>.\<close>

fun crlf_to_lf :: "ustr \<Rightarrow> ustr" where
  "crlf_to_lf (c # d # cs) =
     (if c = 13 \<and> d = 10 then 10 # crlf_to_lf cs else c # crlf_to_lf (d # cs))"
| "crlf_to_lf cs = cs"

text \<open>
  \<open>path.stem\<close> of a scanned path: its name ends in \<open>.md\<close> and does not start with a dot,
  so the stem is the name less its last three characters.
\<close>

definition stem :: "path \<Rightarrow> ustr" where
  "stem p = take (length (last p) - 3) (last p)"

text \<open>
  \<open>_extract_tags\<close>.  A value other than a mapping has no \<open>get\<close>.  The default \<open>[]\<close> is a
  list, of no tags.
\<close>

definition extract_tags :: "env \<Rightarrow> yaml \<Rightarrow> error + ustr list" where
  "extract_tags E fm =
     (case fm of
        YMap items \<Rightarrow>
          (case map_of items (YStr (u ''tags'')) of
             None \<Rightarrow> Inr []
           | Some (YStr raw_tags) \<Rightarrow> Inr [raw_tags]
           | Some (YList raw_tags) \<Rightarrow> Inr (map (py_str E) raw_tags)
           | Some _ \<Rightarrow> Inr [])
      | _ \<Rightarrow> Inl AttributeError)"

text \<open>
  \<open>_parse_note\<close>.  It reads a path that the scan has just produced, so the path is
  passed with what lies there.  The front matter of a note is a dictionary: with any
  other value \<open>_extract_tags\<close> has raised.
\<close>

definition parse_note :: "env \<Rightarrow> path \<times> entry \<Rightarrow> error + Note" where
  "parse_note E f =
     (case snd f of
        Dir \<Rightarrow> Inl OSError
      | File t \<Rightarrow>
          (let raw = universal_newlines t;
               raw = dropWhile (\<lambda>c. c = 65279) raw;
               raw = crlf_to_lf raw;
               nm = stem (fst f);
               (fm, bdy) = (case frontmatter_re_match raw of
                              Some (yaml_str, b) \<Rightarrow> (yaml_safe_load E yaml_str, b)
                            | None \<Rightarrow> (YMap [], raw))
           in case extract_tags E fm of
                Inl e \<Rightarrow> Inl e
              | Inr ts \<Rightarrow>
                  Inr \<lparr>name = nm, path = fst f,
                       frontmatter = (case fm of YMap items \<Rightarrow> items | _ \<Rightarrow> []),
                       body = bdy, outgoing_links = extract_wikilinks bdy, tags = ts\<rparr>))"

subsection \<open>The index\<close>

text \<open>
  \<open>_scan_files\<close>: the files and directories whose name matches \<open>*.md\<close>, less those with a
  part that starts with a dot.
\<close>

definition scan_files :: "filesystem \<Rightarrow> (path \<times> entry) list" where
  "scan_files fs =
     filter (\<lambda>f. fst f \<noteq> [] \<and> 3 \<le> length (last (fst f)) \<and>
                 drop (length (last (fst f)) - 3) (last (fst f)) = u ''.md'' \<and>
                 \<not> list_ex (\<lambda>part. take 1 part = u ''.'') (fst f)) fs"

text \<open>
  The dictionaries \<open>_notes\<close> and \<open>_incoming_links\<close> are association lists in insertion
  order; an assignment to a key that is present keeps its place.  \<open>scans\<close> counts the
  runs of \<open>_build_index\<close>, each of which scans the directory once.
\<close>

record vault =
  files :: filesystem
  "notes" :: "(ustr \<times> Note) list option"
  incoming_links :: "(ustr \<times> ustr list) list option"
  scans :: nat

text \<open>The first loop of \<open>_build_index\<close>; it ends at the first file that does not parse.\<close>

fun build_notes_loop :: "env \<Rightarrow> (path \<times> entry) list \<Rightarrow> (ustr \<times> Note) list \<Rightarrow>
    error + (ustr \<times> Note) list" where
  "build_notes_loop E [] ns = Inr ns"
| "build_notes_loop E (f # fs) ns =
     (case parse_note E f of
        Inl e \<Rightarrow> Inl e
      | Inr n \<Rightarrow> build_notes_loop E fs (AList.update (name n) n ns))"

definition build_notes :: "env \<Rightarrow> filesystem \<Rightarrow> error + (ustr \<times> Note) list" where
  "build_notes E fs = build_notes_loop E (scan_files fs) []"

text \<open>\<open>incoming.setdefault(target, []).append(source)\<close>.\<close>

definition setdefault_append :: "(ustr \<times> ustr list) list \<Rightarrow> ustr \<Rightarrow> ustr \<Rightarrow> (ustr \<times> ustr list) list" where
  "setdefault_append incoming target source =
     AList.update target
       ((case map_of incoming target of None \<Rightarrow> [] | Some l \<Rightarrow> l) @ [source]) incoming"

definition build_incoming :: "(ustr \<times> Note) list \<Rightarrow> (ustr \<times> ustr list) list" where
  "build_incoming ns =
     foldl (\<lambda>incoming n.
              foldl (\<lambda>incoming target. setdefault_append incoming target (name n))
                incoming (outgoing_links n))
       [] (map snd ns)"

text \<open>
  An operation takes the vault and returns the vault it leaves, with a value or with the
  exception it raised.
\<close>

type_synonym 'a op = "vault \<Rightarrow> (error + 'a) \<times> vault"

definition op_return :: "'a \<Rightarrow> 'a op" where
  "op_return a v = (Inr a, v)"

definition op_raise :: "error \<Rightarrow> 'a op" where
  "op_raise e v = (Inl e, v)"

definition op_lift :: "error + 'a \<Rightarrow> 'a op" where
  "op_lift r v = (r, v)"

definition op_bind :: "'a op \<Rightarrow> ('a \<Rightarrow> 'b op) \<Rightarrow> 'b op" where
  "op_bind m f v = (case m v of (Inl e, v') \<Rightarrow> (Inl e, v') | (Inr a, v') \<Rightarrow> f a v')"

text \<open>
  \<open>_build_index\<close>.  When a file does not parse, the exception leaves the method before
  it has assigned \<open>_notes\<close> and \<open>_incoming_links\<close>.
\<close>

definition build_index :: "env \<Rightarrow> unit op" where
  "build_index E v =
     (case build_notes E (files v) of
        Inl e \<Rightarrow> (Inl e, v\<lparr>scans := scans v + 1\<rparr>)
      | Inr ns \<Rightarrow>
          (Inr (), v\<lparr>notes := Some ns, incoming_links := Some (build_incoming ns),
                     scans := scans v + 1\<rparr>))"

definition ensure_index :: "env \<Rightarrow> unit op" where
  "ensure_index E v = (if notes v = None then build_index E v else (Inr (), v))"

definition refresh :: "env \<Rightarrow> unit op" where
  "refresh E v = build_index E (v\<lparr>notes := None, incoming_links := None\<rparr>)"

text \<open>\<open>self._notes.get(nm)\<close>; \<open>_notes\<close> is a dictionary wherever this is used.\<close>

definition notes_get :: "vault \<Rightarrow> ustr \<Rightarrow> Note option" where
  "notes_get v nm = (case notes v of None \<Rightarrow> None | Some ns \<Rightarrow> map_of ns nm)"

definition get_note :: "env \<Rightarrow> ustr \<Rightarrow> Note op" where
  "get_note E nm =
     op_bind (ensure_index E) (\<lambda>_ v1.
       if notes v1 = None then (Inl AssertionError, v1)
       else (case notes_get v1 nm of
               Some n \<Rightarrow> (Inr n, v1)
             | None \<Rightarrow>
                 op_bind (refresh E) (\<lambda>_ v2.
                   case notes_get v2 nm of
                     Some n \<Rightarrow> (Inr n, v2)
                   | None \<Rightarrow> (Inl NoteNotFoundError, v2)) v1))"

definition resolve_path :: "env \<Rightarrow> ustr \<Rightarrow> path op" where
  "resolve_path E nm = op_bind (get_note E nm) (\<lambda>n. op_return (path n))"

definition get_incoming_links :: "env \<Rightarrow> ustr \<Rightarrow> ustr list op" where
  "get_incoming_links E nm =
     op_bind (ensure_index E) (\<lambda>_ v1.
       case incoming_links v1 of
         None \<Rightarrow> (Inl AssertionError, v1)
       | Some incoming \<Rightarrow>
           (Inr (case map_of incoming nm of None \<Rightarrow> [] | Some l \<Rightarrow> l), v1))"


definition list_notes :: "env \<Rightarrow> Note list op" where
  "list_notes E =
     op_bind (ensure_index E) (\<lambda>_ v1.
       case notes v1 of
         None \<Rightarrow> (Inl AssertionError, v1)
       | Some ns \<Rightarrow> (Inr (map snd ns), v1))"

section \<open>operations.py\<close>

subsection \<open>Steps on the vault\<close>

definition op_read_text :: "path \<Rightarrow> ustr op" where
  "op_read_text p v = (read_text (files v) p, v)"

definition op_write_text :: "path \<Rightarrow> ustr \<Rightarrow> unit op" where
  "op_write_text p t v =
     (case write_text (files v) p t of
        Inl e \<Rightarrow> (Inl e, v)
      | Inr fs \<Rightarrow> (Inr (), v\<lparr>files := fs\<rparr>))"

definition op_rename_path :: "path \<Rightarrow> path \<Rightarrow> unit op" where
  "op_rename_path src dst v =
     (case rename_path (files v) src dst of
        Inl e \<Rightarrow> (Inl e, v)
      | Inr fs \<Rightarrow> (Inr (), v\<lparr>files := fs\<rparr>))"

definition op_mkdir_exist_ok :: "path \<Rightarrow> unit op" where
  "op_mkdir_exist_ok d v =
     (case mkdir_exist_ok (files v) d of
        Inl e \<Rightarrow> (Inl e, v)
      | Inr fs \<Rightarrow> (Inr (), v\<lparr>files := fs\<rparr>))"

definition op_path_exists :: "path \<Rightarrow> bool op" where
  "op_path_exists p v = (Inr (path_exists (files v) p), v)"

definition op_refresh :: "env \<Rightarrow> unit op" where
  "op_refresh E = refresh E"

subsection \<open>Results\<close>


record write_result =
  warnings :: "validation_warning list"

record delete_result =
  delete_name :: ustr
  trash_path :: path
  delete_files_updated :: "ustr list"

record rename_result =
  old_name :: ustr
  new_name :: ustr
  rename_files_updated :: "ustr list"



record links_result =
  links_name :: ustr
  outgoing :: "ustr list"
  incoming :: "ustr list"

subsection \<open>Headings and wikilinks\<close>

definition get_headings :: "env \<Rightarrow> ustr \<Rightarrow> (heading list) op" where
  "get_headings E nm = op_bind (get_note E nm) (\<lambda>n. op_return (headings_of_body (body n)))"

text \<open>
  \<open>_WIKILINK_WITH_SECTION_RE = \[\[([^\]#|]+)(?:#([^\]|]+))?\]\]\<close> tried at the start of
  \<open>s\<close>.  Group 1 is the whole run of characters other than \<open>]\<close>, \<open>#\<close> and \<open>|\<close>; then
  either \<open>]]\<close> follows, or \<open>#\<close> and group 2, the whole run of characters other than \<open>]\<close>
  and \<open>|\<close>, and then \<open>]]\<close>.  The result is the two groups and the text after the match.
\<close>

definition wikilink_with_section_re_match_at :: "ustr \<Rightarrow> ((ustr \<times> ustr option) \<times> ustr) option" where
  "wikilink_with_section_re_match_at s =
     (if take 2 s = u ''[['' then
        (let g1 = takeWhile (\<lambda>c. c \<noteq> 93 \<and> c \<noteq> 35 \<and> c \<noteq> 124) (drop 2 s);
             r1 = dropWhile (\<lambda>c. c \<noteq> 93 \<and> c \<noteq> 35 \<and> c \<noteq> 124) (drop 2 s)
         in if g1 = [] then None
            else if take 2 r1 = u '']]'' then Some ((g1, None), drop 2 r1)
            else if take 1 r1 = u ''#'' then
              (let g2 = takeWhile (\<lambda>c. c \<noteq> 93 \<and> c \<noteq> 124) (drop 1 r1);
                   r2 = dropWhile (\<lambda>c. c \<noteq> 93 \<and> c \<noteq> 124) (drop 1 r1)
               in if g2 \<noteq> [] \<and> take 2 r2 = u '']]'' then Some ((g1, Some g2), drop 2 r2)
                  else None)
            else None)
      else None)"

lemma wikilink_with_section_re_match_at_shorter:
  "wikilink_with_section_re_match_at s = Some (m, rest) \<Longrightarrow> length rest < length s"
proof -
  assume a: "wikilink_with_section_re_match_at s = Some (m, rest)"
  let ?P = "\<lambda>c::nat. c \<noteq> 93 \<and> c \<noteq> 35 \<and> c \<noteq> 124"
  let ?Q = "\<lambda>c::nat. c \<noteq> 93 \<and> c \<noteq> 124"
  let ?r1 = "dropWhile ?P (drop 2 s)"
  from a have s2: "take 2 s = u ''[[''"
    by (auto simp: wikilink_with_section_re_match_at_def split: if_splits)
  then have l: "2 \<le> length s" by (cases s; cases "tl s") (auto simp: u_def)
  have l1: "length ?r1 \<le> length (drop 2 s)" by (rule length_dropWhile_le)
  have l2: "length (dropWhile ?Q (drop 1 ?r1)) \<le> length (drop 1 ?r1)"
    by (rule length_dropWhile_le)
  from a s2 have "rest = drop 2 ?r1 \<or> rest = drop 2 (dropWhile ?Q (drop 1 ?r1))"
    by (auto simp: wikilink_with_section_re_match_at_def Let_def split: if_splits)
  then show ?thesis using l l1 l2 by auto
qed

text \<open>\<open>_WIKILINK_WITH_SECTION_RE.finditer(content)\<close>: the groups of each match, in order.\<close>

function wikilinks_with_section :: "ustr \<Rightarrow> (ustr \<times> ustr option) list" where
  "wikilinks_with_section [] = []"
| "wikilinks_with_section (c # cs) =
     (case wikilink_with_section_re_match_at (c # cs) of
        Some (m, rest) \<Rightarrow> m # wikilinks_with_section rest
      | None \<Rightarrow> wikilinks_with_section cs)"
  by pat_completeness auto
termination
  by (relation "measure length") (auto dest: wikilink_with_section_re_match_at_shorter)

definition broken_link_warning :: "ustr \<Rightarrow> validation_warning" where
  "broken_link_warning note_name =
     \<lparr>line = 0, message = u ''Link to non-existent note: '' @ note_name,
      rule = u ''broken-link''\<rparr>"

text \<open>
  The loop of \<open>_validate_wikilinks\<close> over the matches.  Only \<open>NoteNotFoundError\<close> is
  caught; a section that is \<open>None\<close> or empty after \<open>strip\<close> is not checked.
\<close>

fun validate_wikilinks_loop ::
  "env \<Rightarrow> (ustr \<times> ustr option) list \<Rightarrow> validation_warning list \<Rightarrow>
   (validation_warning list) op" where
  "validate_wikilinks_loop E [] ws = op_return ws"
| "validate_wikilinks_loop E (m # ms) ws =
     (\<lambda>v. let note_name = strip (fst m);
              section = map_option strip (snd m)
          in case get_note E note_name v of
               (Inl e, v') \<Rightarrow>
                 if e = NoteNotFoundError then
                   validate_wikilinks_loop E ms (ws @ [broken_link_warning note_name]) v'
                 else (Inl e, v')
             | (Inr n, v') \<Rightarrow>
                 (case section of
                    None \<Rightarrow> validate_wikilinks_loop E ms ws v'
                  | Some sec \<Rightarrow>
                      if sec = [] then validate_wikilinks_loop E ms ws v'
                      else (case get_headings E note_name v' of
                              (Inl e, v'') \<Rightarrow> (Inl e, v'')
                            | (Inr headings, v'') \<Rightarrow>
                                if sec \<notin> set (map text headings) then (Inl BrokenLinkError, v'')
                                else validate_wikilinks_loop E ms ws v'')))"

definition validate_wikilinks :: "env \<Rightarrow> ustr \<Rightarrow> (validation_warning list) op" where
  "validate_wikilinks E content = validate_wikilinks_loop E (wikilinks_with_section content) []"

text \<open>\<open>_serialize_note\<close>; \<open>rstrip("\n")\<close> drops the newlines at the end of the dump.\<close>

definition serialize_note :: "env \<Rightarrow> ydict \<Rightarrow> ustr \<Rightarrow> ustr" where
  "serialize_note E fm bdy =
     (if fm = [] then bdy
      else u ''---\<newline>'' @ rev (dropWhile (\<lambda>c. c = 10) (rev (yaml_dump E fm)))
           @ u ''\<newline>---\<newline>'' @ bdy)"

subsection \<open>Create, read, append, update\<close>



definition append :: "env \<Rightarrow> ustr \<Rightarrow> ustr \<Rightarrow> write_result op" where
  "append E nm txt =
     op_bind (resolve_path E nm) (\<lambda>p.
     op_bind (op_read_text p) (\<lambda>current.
     let new_content = current @ u ''\<newline>\<newline>'' @ txt in
     op_bind (op_lift (validate_headings new_content)) (\<lambda>_.
     op_bind (validate_wikilinks E new_content) (\<lambda>link_warnings.
     op_bind (op_write_text p new_content) (\<lambda>_.
     op_bind (op_refresh E) (\<lambda>_.
     op_bind (op_lift (validate new_content)) (\<lambda>ws.
     op_return \<lparr>warnings = ws @ link_warnings\<rparr>)))))))"

definition update :: "env \<Rightarrow> ustr \<Rightarrow> ustr \<Rightarrow> write_result op" where
  "update E nm content =
     op_bind (get_note E nm) (\<lambda>n.
     let fm = frontmatter n;
         file_content = serialize_note E fm content in
     op_bind (op_lift (validate_headings content)) (\<lambda>_.
     op_bind (validate_wikilinks E content) (\<lambda>link_warnings.
     op_bind (op_write_text (path n) file_content) (\<lambda>_.
     op_bind (op_refresh E) (\<lambda>_.
     op_bind (op_lift (validate file_content)) (\<lambda>ws.
     op_return \<lparr>warnings = ws @ link_warnings\<rparr>))))))"

subsection \<open>Delete and rename\<close>

definition find_files_with_link :: "env \<Rightarrow> ustr \<Rightarrow> (ustr list) op" where
  "find_files_with_link E nm = get_incoming_links E nm"

text \<open>
  The pattern of \<open>_update_links_in_file\<close>, \<open>\[\[<re.escape(old_name)>([|#][^\]]*?)?\]\]\<close>,
  tried at the start of \<open>s\<close>: after \<open>[[\<close> and the old name comes \<open>]]\<close>, or one of \<open>|\<close> and
  \<open>#\<close>, the characters up to the next \<open>]\<close>, and \<open>]]\<close>.  The result is group 1 (empty when
  it took no part) and the text after the match.
\<close>

definition link_re_match_at :: "ustr \<Rightarrow> ustr \<Rightarrow> (ustr \<times> ustr) option" where
  "link_re_match_at old_nm s =
     (if take (2 + length old_nm) s = u ''[['' @ old_nm then
        (let r = drop (2 + length old_nm) s
         in if take 2 r = u '']]'' then Some ([], drop 2 r)
            else if take 1 r = u ''|'' \<or> take 1 r = u ''#'' then
              (let suffix = takeWhile (\<lambda>c. c \<noteq> 93) (drop 1 r);
                   r' = dropWhile (\<lambda>c. c \<noteq> 93) (drop 1 r)
               in if take 2 r' = u '']]'' then Some (take 1 r @ suffix, drop 2 r') else None)
            else None)
      else None)"

lemma link_re_match_at_shorter:
  "link_re_match_at old_nm s = Some (g, rest) \<Longrightarrow> length rest < length s"
proof -
  assume a: "link_re_match_at old_nm s = Some (g, rest)"
  let ?r = "drop (2 + length old_nm) s"
  let ?r' = "dropWhile (\<lambda>c. c \<noteq> 93) (drop 1 ?r)"
  from a have s2: "take (2 + length old_nm) s = u ''[['' @ old_nm"
    by (auto simp: link_re_match_at_def split: if_splits)
  then have "length (take (2 + length old_nm) s) = 2 + length old_nm"
    by (simp add: u_def)
  then have l: "2 \<le> length s" by simp
  have l2: "length ?r' \<le> length (drop 1 ?r)" by (rule length_dropWhile_le)
  from a s2 have "rest = drop 2 ?r \<or> rest = drop 2 ?r'"
    by (auto simp: link_re_match_at_def Let_def split: if_splits)
  then show ?thesis using l l2 by auto
qed

text \<open>
  The replacement \<open>[[<new_name>\1]]\<close> as a function of group 1.  The template always
  holds a backslash, so \<open>re\<close> compiles it before it looks for a match.  A new name without
  a backslash is copied as it is.  The text of a match is \<open>[[\<close>, the old name, group 1 and
  \<open>]]\<close>.
\<close>

definition template :: "env \<Rightarrow> ustr \<Rightarrow> ustr \<Rightarrow> error + (ustr \<Rightarrow> ustr)" where
  "template E old_nm new_nm =
     (if 92 \<notin> set new_nm then Inr (\<lambda>g. u ''[['' @ new_nm @ g @ u '']]'')
      else (case re_template E new_nm of
              None \<Rightarrow> Inl ReError
            | Some repl \<Rightarrow> Inr (\<lambda>g. repl (u ''[['' @ old_nm @ g @ u '']]'') g)))"

text \<open>
  The matches of the pattern in \<open>content\<close> from left to right, none overlapping, each
  replaced: the new text and the number of matches.
\<close>

function subn_with :: "(ustr \<Rightarrow> ustr) \<Rightarrow> ustr \<Rightarrow> ustr \<Rightarrow> ustr \<times> nat" where
  "subn_with repl old_nm [] = ([], 0)"
| "subn_with repl old_nm (c # cs) =
     (case link_re_match_at old_nm (c # cs) of
        Some (g, rest) \<Rightarrow>
          (let (out, n) = subn_with repl old_nm rest
           in (repl g @ out, n + 1))
      | None \<Rightarrow>
          (let (out, n) = subn_with repl old_nm cs in (c # out, n)))"
  by pat_completeness auto
termination
  by (relation "measure (\<lambda>(a, b, s). length s)") (auto dest: link_re_match_at_shorter)

text \<open>\<open>re.subn(pattern, replacement, content)\<close>.\<close>

definition subn_links :: "env \<Rightarrow> ustr \<Rightarrow> ustr \<Rightarrow> ustr \<Rightarrow> error + ustr \<times> nat" where
  "subn_links E old_nm new_nm content =
     (case template E old_nm new_nm of
        Inl e \<Rightarrow> Inl e
      | Inr repl \<Rightarrow> Inr (subn_with repl old_nm content))"

definition update_links_in_file :: "env \<Rightarrow> path \<Rightarrow> ustr \<Rightarrow> ustr \<Rightarrow> bool op" where
  "update_links_in_file E p old_nm new_nm =
     op_bind (op_read_text p) (\<lambda>content.
     op_bind (op_lift (subn_links E old_nm new_nm content)) (\<lambda>(new_content, count).
     if count = 0 then op_return False
     else op_bind (op_write_text p new_content) (\<lambda>_. op_return True)))"

text \<open>The loop \<open>for ref_name in files_updated\<close> of \<open>delete\<close> and of \<open>rename\<close>.\<close>

fun update_refs_loop :: "env \<Rightarrow> ustr list \<Rightarrow> ustr \<Rightarrow> ustr \<Rightarrow> unit op" where
  "update_refs_loop E [] old_nm new_nm = op_return ()"
| "update_refs_loop E (ref_name # rest) old_nm new_nm =
     op_bind (get_note E ref_name) (\<lambda>ref_note.
     op_bind (update_links_in_file E (path ref_note) old_nm new_nm) (\<lambda>_.
     update_refs_loop E rest old_nm new_nm))"

definition delete :: "env \<Rightarrow> ustr \<Rightarrow> bool \<Rightarrow> delete_result op" where
  "delete E nm dry_run =
     op_bind (get_note E nm) (\<lambda>n.
     let trash_dir = [u ''.trash''];
         trash = trash_dir @ [nm @ u ''.md''] in
     op_bind (find_files_with_link E nm) (\<lambda>files_updated.
     op_bind
       (if \<not> dry_run then
          op_bind (update_refs_loop E files_updated nm (nm @ u '' (deleted)'')) (\<lambda>_.
          op_bind (op_mkdir_exist_ok trash_dir) (\<lambda>_.
          op_bind (op_rename_path (path n) trash) (\<lambda>_.
          op_refresh E)))
        else op_return ()) (\<lambda>_.
     op_return \<lparr>delete_name = nm, trash_path = trash,
                delete_files_updated = files_updated\<rparr>)))"

definition rename :: "env \<Rightarrow> ustr \<Rightarrow> ustr \<Rightarrow> bool \<Rightarrow> rename_result op" where
  "rename E old_nm new_nm dry_run =
     op_bind (op_lift (validate_name (tasks_emojis E) new_nm)) (\<lambda>_.
     op_bind (get_note E old_nm) (\<lambda>old_note.
     let new_path = [new_nm @ u ''.md''] in
     op_bind (op_path_exists new_path) (\<lambda>ex.
     if ex then op_raise NoteAlreadyExistsError
     else
       op_bind (find_files_with_link E old_nm) (\<lambda>files_updated.
       op_bind
         (if \<not> dry_run then
            op_bind (update_refs_loop E files_updated old_nm new_nm) (\<lambda>_.
            op_bind (op_rename_path (path old_note) new_path) (\<lambda>_.
            op_refresh E))
          else op_return ()) (\<lambda>_.
       op_return \<lparr>old_name = old_nm, new_name = new_nm,
                  rename_files_updated = files_updated\<rparr>)))))"

subsection \<open>Front matter, links, batches\<close>









subsection \<open>Text editing\<close>










subsection \<open>Sections\<close>

definition read_section :: "env \<Rightarrow> ustr \<Rightarrow> ustr \<Rightarrow> ustr op" where
  "read_section E nm section =
     op_bind (get_note E nm) (\<lambda>n.
     let lines = split_nl (body n) in
     op_bind (op_lift (find_section_bounds lines section)) (\<lambda>(start, end, level).
     op_return (strip (join_nl (slice lines start end)))))"


definition update_section :: "env \<Rightarrow> ustr \<Rightarrow> ustr \<Rightarrow> ustr \<Rightarrow> write_result op" where
  "update_section E nm section content =
     op_bind (get_note E nm) (\<lambda>n.
     let lines = split_nl (body n) in
     op_bind (op_lift (find_section_bounds lines section)) (\<lambda>(start, end, level).
     let heading_line = lines ! (start - 1);
         new_lines = take (start - 1) lines @ [heading_line, content] @ drop end lines;
         new_body = join_nl new_lines;
         file_content = serialize_note E (frontmatter n) new_body in
     op_bind (op_lift (validate_headings new_body)) (\<lambda>_.
     op_bind (validate_wikilinks E new_body) (\<lambda>link_warnings.
     op_bind (op_write_text (path n) file_content) (\<lambda>_.
     op_bind (op_refresh E) (\<lambda>_.
     op_bind (op_lift (validate file_content)) (\<lambda>ws.
     op_return \<lparr>warnings = ws @ link_warnings\<rparr>)))))))"


section \<open>A concrete environment and vault for examples\<close>

text \<open>
  \<open>plain_env\<close> has the code points of \<open>TASKS_EMOJIS\<close> as the source file holds them, and
  stand-ins for the libraries.  Its YAML decoder knows the empty document and the
  comment, which hold no value and so give \<open>{}\<close>, and takes any other text for a string;
  its template compiler refuses every name with a backslash.  \<open>vault_of fs\<close> is a vault
  that has just been opened on the files \<open>fs\<close>: no index is built yet.
\<close>

definition plain_env :: env where
  "plain_env =
     \<lparr>tasks_emojis = [226, 382, 8226, 226, 179, 240, 376, 8250, 171, 240, 376, 8220, 8230,
                      226, 339, 8230, 226, 338, 226, 172, 240, 376, 8221, 189, 240, 376,
                      8221, 188, 226, 171, 240, 376, 8221, 186, 240, 376, 8221, 240, 376,
                      240, 376, 8224, 8221, 226, 8250, 8221],
      yaml_safe_load = (\<lambda>s. if s = [] \<or> hd s = 35 then YMap [] else YStr s),
      yaml_dump = (\<lambda>fm. []), py_str = (\<lambda>t. []), re_template = (\<lambda>new_nm. None)\<rparr>"

definition vault_of :: "filesystem \<Rightarrow> vault" where
  "vault_of fs = \<lparr>files = fs, notes = None, incoming_links = None, scans = 0\<rparr>"

section \<open>Invariants\<close>

text \<open>
  The index, when there is one, is as \<open>_build_index\<close> leaves it: every note is stored
  under its name, and the reverse map is the one built from the notes.
\<close>

definition index_ok :: "vault \<Rightarrow> bool" where
  "index_ok v \<longleftrightarrow>
     (case notes v of
        None \<Rightarrow> True
      | Some ns \<Rightarrow> list_all (\<lambda>kn. name (snd kn) = fst kn) ns \<and>
                  incoming_links v = Some (build_incoming ns))"

text \<open>
  The errors that the operations raise on purpose, as opposed to \<open>OSError\<close>,
  \<open>AttributeError\<close> and \<open>re.error\<close> and to the failures of an assertion or of \<open>pop\<close>.
\<close>

definition blocking :: "error \<Rightarrow> bool" where
  "blocking e \<longleftrightarrow>
     e = InvalidNameError \<or> e = InvalidHeadingError \<or> e = BrokenLinkError \<or>
     e = NoteNotFoundError \<or> e = SectionNotFoundError \<or> e = TextNotFoundError \<or>
     e = NoteAlreadyExistsError \<or> e = ValueError"

text \<open>
  The invariant of the loop of \<open>_parse_code_blocks\<close>: the stack holds at most one open
  fence, and it holds one exactly when \<open>in_code_block\<close> is set.
\<close>

definition fence_inv :: "fence_state \<Rightarrow> bool" where
  "fence_inv st \<longleftrightarrow> length (stack st) \<le> 1 \<and> (in_code_block st \<longleftrightarrow> stack st \<noteq> [])"

text \<open>
  \<open>sources_of T ns\<close>: going through the notes \<open>ns\<close> in order, the name of each note once
  for every occurrence of \<open>T\<close> among its outgoing links.
\<close>

definition sources_of :: "ustr \<Rightarrow> Note list \<Rightarrow> ustr list" where
  "sources_of T ns =
     concat (map (\<lambda>n. replicate (count_list (outgoing_links n) T) (name n)) ns)"

text \<open>
  A file whose front matter is the one word \<open>foo\<close>, which YAML reads as a string, and a
  vault whose index was built before that file appeared as \<open>A.md\<close>.
\<close>

definition scalar_fm_file :: ustr where
  "scalar_fm_file = u ''---\<newline>foo\<newline>---\<newline>body''"

definition stale_vault :: vault where
  "stale_vault =
     \<lparr>files = [([u ''A.md''], File scalar_fm_file)], notes = Some [],
      incoming_links = Some [], scans = 1\<rparr>"

text \<open>Note \<open>A\<close> links to \<open>B\<close> twice.\<close>

definition fs_twice :: filesystem where
  "fs_twice = [([u ''A.md''], File (u ''[[B]] [[B]]'')), ([u ''B.md''], File (u ''x''))]"

text \<open>Note \<open>A\<close> links to \<open>B\<close> only with an alias.\<close>

definition fs_alias :: filesystem where
  "fs_alias = [([u ''A.md''], File (u ''[[B|Alias]]'')), ([u ''B.md''], File (u ''x''))]"

text \<open>The index that \<open>_build_index\<close> makes of \<open>fs_twice\<close>.\<close>

definition notes_twice :: "(ustr \<times> Note) list" where
  "notes_twice =
     [(u ''A'', \<lparr>name = u ''A'', path = [u ''A.md''], frontmatter = [],
                 body = u ''[[B]] [[B]]'', outgoing_links = [u ''B'', u ''B''], tags = []\<rparr>),
      (u ''B'', \<lparr>name = u ''B'', path = [u ''B.md''], frontmatter = [], body = u ''x'',
                 outgoing_links = [], tags = []\<rparr>)]"

text \<open>The vaults \<open>fs_twice\<close> and \<open>fs_alias\<close> with their index built.\<close>

definition built_twice :: "vault" where
  "built_twice =
     \<lparr>files = fs_twice, notes = Some notes_twice,
      incoming_links = Some [(u ''B'', [u ''A'', u ''A''])], scans = 1\<rparr>"

definition notes_alias :: "(ustr \<times> Note) list" where
  "notes_alias =
     [(u ''A'', \<lparr>name = u ''A'', path = [u ''A.md''], frontmatter = [],
                 body = u ''[[B|Alias]]'', outgoing_links = [], tags = []\<rparr>),
      (u ''B'', \<lparr>name = u ''B'', path = [u ''B.md''], frontmatter = [], body = u ''x'',
                 outgoing_links = [], tags = []\<rparr>)]"

definition built_alias :: "vault" where
  "built_alias =
     \<lparr>files = fs_alias, notes = Some notes_alias, incoming_links = Some [], scans = 1\<rparr>"

text \<open>The files of \<open>fs_twice\<close> after the links to \<open>B\<close> are rewritten for its deletion.\<close>

definition fs_twice_rewritten :: filesystem where
  "fs_twice_rewritten =
     [([u ''A.md''], File (u ''[[B (deleted)]] [[B (deleted)]]'')), ([u ''B.md''], File (u ''x''))]"

text \<open>The same files after \<open>B\<close> is moved to the trash.\<close>

definition fs_twice_trashed :: filesystem where
  "fs_twice_trashed =
     [([u ''A.md''], File (u ''[[B (deleted)]] [[B (deleted)]]'')), ([u ''.trash''], Dir),
      ([u ''.trash'', u ''B.md''], File (u ''x''))]"

text \<open>The files of \<open>fs_alias\<close> after \<open>B\<close> is renamed to \<open>C\<close>.\<close>

definition fs_alias_renamed :: filesystem where
  "fs_alias_renamed =
     [([u ''A.md''], File (u ''[[B|Alias]]'')), ([u ''C.md''], File (u ''x''))]"

text \<open>
  A line is shorter than a fence of \<open>n\<close> backticks when it is no fence line or starts
  with fewer than \<open>n\<close> backticks.
\<close>

definition shorter_than :: "nat \<Rightarrow> ustr \<Rightarrow> bool" where
  "shorter_than n ln \<longleftrightarrow> (case fence_re_match ln of None \<Rightarrow> True | Some k \<Rightarrow> k < n)"

text \<open>A fence of four backticks around a fence of three with a heading-like line.\<close>

definition nested_body :: ustr where
  "nested_body = u ''````\<newline>```\<newline># x\<newline>```\<newline>````''"

text \<open>A closed fence that holds the line \<open>## H\<close>.\<close>

definition fenced_selector_body :: ustr where
  "fenced_selector_body = u ''```\<newline>## H\<newline>X\<newline>```''"

text \<open>A section \<open>A\<close> followed by a closed fence that holds the line \<open># c\<close>.\<close>

definition fenced_end_body :: ustr where
  "fenced_end_body = u ''# A\<newline>```\<newline># c\<newline>```\<newline>D''"

text \<open>The body of the section example, the same body after the update, and a body with a tag line.\<close>

definition spec_body :: ustr where
  "spec_body = u ''## H\<newline>X\<newline>## H2\<newline>Y''"

definition spec_body_updated :: ustr where
  "spec_body_updated = u ''## H\<newline>Z\<newline>## H2\<newline>Y''"

definition tag_body :: ustr where
  "tag_body = u ''## H\<newline>X\<newline>#tag\<newline>Y''"

text \<open>
  The number of \<open>#\<close> characters at the start of a line.  A stripped line is a heading
  for a stripped selector in one of two ways: the selector starts with \<open>#\<close> and the line
  is the selector; or the selector does not, and the line is one or more \<open>#\<close> and then,
  between optional white space, the selector.
\<close>

definition hash_run :: "ustr \<Rightarrow> nat" where
  "hash_run ln = length (takeWhile (\<lambda>c. c = 35) ln)"

definition heading_for :: "ustr \<Rightarrow> ustr \<Rightarrow> bool" where
  "heading_for sel ln \<longleftrightarrow>
     (if sel \<noteq> [] \<and> hd sel = 35 then ln = sel
      else 1 \<le> hash_run ln \<and> strip (drop (hash_run ln) ln) = sel)"

text \<open>
  The note that \<open>_parse_note\<close> makes of a file \<open>N.md\<close> with the text \<open>t\<close>, when \<open>t\<close> has no
  front matter, no byte-order mark and no carriage return, and the vault of that one file
  with its index built.
\<close>

definition plain_note :: "ustr \<Rightarrow> Note" where
  "plain_note t =
     \<lparr>name = u ''N'', path = [u ''N.md''], frontmatter = [], body = t,
      outgoing_links = extract_wikilinks t, tags = []\<rparr>"

definition built_single :: "ustr \<Rightarrow> vault" where
  "built_single t =
     \<lparr>files = [([u ''N.md''], File t)], notes = Some [(u ''N'', plain_note t)],
      incoming_links = Some (build_incoming [(u ''N'', plain_note t)]), scans = 1\<rparr>"

text \<open>
  A file whose front matter is a YAML comment in Cyrillic (\<open>1046\<close> is U+0416), and the
  note parsed from it.
\<close>

definition fm_comment_file :: ustr where
  "fm_comment_file = u ''---\<newline># '' @ [1046] @ u ''\<newline>---\<newline>body''"

definition fm_comment_note :: "Note" where
  "fm_comment_note =
     \<lparr>name = u ''N'', path = [u ''N.md''], frontmatter = [], body = u ''body'',
      outgoing_links = [], tags = []\<rparr>"

text \<open>
  Three properties of a step, used to show where an operation can fail: it never changes
  the files; it never raises a blocking error; when it raises a blocking error, the
  files are as they were.
\<close>

definition reads_only :: "'a op \<Rightarrow> bool" where
  "reads_only m \<longleftrightarrow> (\<forall>v r v'. m v = (r, v') \<longrightarrow> files v' = files v)"


definition fails_early :: "'a op \<Rightarrow> bool" where
  "fails_early m \<longleftrightarrow> (\<forall>v e v'. m v = (Inl e, v') \<and> blocking e \<longrightarrow> files v' = files v)"

text \<open>The files of \<open>fs_alias\<close> after \<open>B\<close> is moved to the trash.\<close>

definition fs_alias_trashed :: filesystem where
  "fs_alias_trashed =
     [([u ''A.md''], File (u ''[[B|Alias]]'')), ([u ''.trash''], Dir),
      ([u ''.trash'', u ''B.md''], File (u ''x''))]"

text \<open>The vault of those files with its index built, at the second scan.\<close>

definition trashed_alias :: vault where
  "trashed_alias =
     \<lparr>files = fs_alias_trashed,
      notes = Some [(u ''A'', \<lparr>name = u ''A'', path = [u ''A.md''], frontmatter = [],
                                body = u ''[[B|Alias]]'', outgoing_links = [], tags = []\<rparr>)],
      incoming_links = Some [], scans = 2\<rparr>"

section \<open>Properties of the fence scanner\<close>

lemma split_nl_nonempty: "split_nl s \<noteq> []"
  by (induction s) (auto split: list.splits)

text \<open>
  The pieces of \<open>split("\n")\<close> hold no newline, which is what the models of the regular
  expressions rely on; joining them gives the string back.
\<close>

lemma split_nl_no_newline: "ln \<in> set (split_nl s) \<Longrightarrow> 10 \<notin> set ln"
proof (induction s arbitrary: ln)
  case Nil
  then show ?case by simp
next
  case (Cons c cs)
  obtain l ls where sp: "split_nl cs = l # ls"
    using split_nl_nonempty[of cs] by (cases "split_nl cs") auto
  show ?case
  proof (cases "c = 10")
    case True
    with Cons show ?thesis by auto
  next
    case False
    with Cons.prems sp have "ln = c # l \<or> ln \<in> set ls" by simp
    then show ?thesis
    proof
      assume "ln = c # l"
      moreover have "10 \<notin> set l" using Cons.IH[of l] sp by simp
      ultimately show ?thesis using False by simp
    next
      assume "ln \<in> set ls"
      then show ?thesis using Cons.IH[of ln] sp by simp
    qed
  qed
qed

lemma join_split_nl: "join_nl (split_nl s) = s"
proof (induction s)
  case Nil
  then show ?case by simp
next
  case (Cons c cs)
  obtain l ls where sp: "split_nl cs = l # ls"
    using split_nl_nonempty[of cs] by (cases "split_nl cs") auto
  show ?case
  proof (cases "c = 10")
    case True
    with Cons sp show ?thesis by simp
  next
    case False
    with Cons sp show ?thesis by (cases ls) auto
  qed
qed

lemma fence_inv_init: "fence_inv fence_init"
  by (simp add: fence_inv_def fence_init_def)

lemma parse_code_blocks_loop_inv:
  "fence_inv st \<Longrightarrow> \<exists>st'. parse_code_blocks_loop i lines st = Inr st' \<and> fence_inv st'"
proof (induction lines arbitrary: i st)
  case Nil
  then show ?case by simp
next
  case (Cons ln rest)
  show ?case
  proof (cases "fence_re_match ln")
    case None
    then show ?thesis using Cons by simp
  next
    case (Some k)
    show ?thesis
    proof (cases "in_code_block st")
      case False
      let ?st = "st\<lparr>stack := stack st @ [(i + 1, k)], in_code_block := True,
                    current_fence_length := k\<rparr>"
      from False Cons.prems have "fence_inv ?st" by (simp add: fence_inv_def)
      from Cons.IH[OF this] show ?thesis using Some False by simp
    next
      case True
      note inblock = True
      show ?thesis
      proof (cases "current_fence_length st \<le> k")
        case True
        from inblock Cons.prems have ne: "stack st \<noteq> []" by (simp add: fence_inv_def)
        let ?st = "st\<lparr>closed_ranges := closed_ranges st @ [(fst (last (stack st)), i + 1)],
                   stack := butlast (stack st), in_code_block := False,
                   current_fence_length := 0\<rparr>"
        from Cons.prems ne have "fence_inv ?st"
          by (cases "stack st") (auto simp: fence_inv_def)
        from Cons.IH[OF this] show ?thesis using Some inblock True ne by simp
      next
        case False
        then show ?thesis using Some inblock Cons by simp
      qed
    qed
  qed
qed

lemma parse_code_blocks_total:
  "\<exists>ranges unclosed. parse_code_blocks lines = Inr (ranges, unclosed) \<and> length unclosed \<le> 1"
proof -
  from parse_code_blocks_loop_inv[OF fence_inv_init, of 0 lines]
  obtain st where "parse_code_blocks_loop 0 lines fence_init = Inr st" "fence_inv st" by blast
  then show ?thesis by (simp add: parse_code_blocks_def fence_inv_def)
qed

lemma check_tables_rule:
  "w \<in> set (check_tables lines ranges) \<Longrightarrow> rule w = u ''table-blank-line''"
  by (auto simp: check_tables_def check_tables_at_def split: if_splits)

lemma rules_differ: "u ''table-blank-line'' \<noteq> u ''unclosed-code-block''"
  by (simp add: u_def)

text \<open>
  Claim C10.  For every content string, \<open>validate\<close> returns (it never fails) and its
  result holds at most one warning with rule \<open>unclosed-code-block\<close>; and after any
  sequence of lines the scanner of \<open>_parse_code_blocks\<close> holds at most one open fence on
  its stack, so the list of unclosed fences has length 0 or 1.
\<close>

theorem validate_at_most_one_unclosed:
  "(\<exists>ws. validate content = Inr ws \<and>
         length (filter (\<lambda>w. rule w = u ''unclosed-code-block'') ws) \<le> 1) \<and>
   (\<exists>st. parse_code_blocks_loop 0 lines fence_init = Inr st \<and> length (stack st) \<le> 1) \<and>
   (\<exists>ranges unclosed. parse_code_blocks lines = Inr (ranges, unclosed) \<and> length unclosed \<le> 1)"
proof -
  obtain ranges unclosed where p: "parse_code_blocks (split_nl content) = Inr (ranges, unclosed)"
    and l: "length unclosed \<le> 1"
    using parse_code_blocks_total by blast
  have "filter (\<lambda>w. rule w = u ''unclosed-code-block'') (check_tables (split_nl content) ranges) = []"
    using check_tables_rule rules_differ by (auto simp: filter_empty_conv)
  moreover have "length (filter (\<lambda>w. rule w = u ''unclosed-code-block'')
                   (map unclosed_warning unclosed)) \<le> 1"
    using l by (meson le_trans length_filter_le
        length_map[of unclosed_warning unclosed, THEN eq_refl])
  ultimately have a: "\<exists>ws. validate content = Inr ws \<and>
         length (filter (\<lambda>w. rule w = u ''unclosed-code-block'') ws) \<le> 1"
    using p by (simp add: validate_def)
  have b: "\<exists>st. parse_code_blocks_loop 0 lines fence_init = Inr st \<and> length (stack st) \<le> 1"
    using parse_code_blocks_loop_inv[OF fence_inv_init, of 0 lines]
    by (auto simp: fence_inv_def)
  show ?thesis using a b parse_code_blocks_total by blast
qed

section \<open>Properties of the index\<close>

subsection \<open>Building the index\<close>

lemma parse_note_errors: "parse_note E f = Inl e \<Longrightarrow> e = OSError \<or> e = AttributeError"
  by (auto simp: parse_note_def extract_tags_def Let_def
      split: entry.splits option.splits yaml.splits prod.splits sum.splits)

lemma parse_note_name_path:
  "parse_note E f = Inr n \<Longrightarrow> name n = stem (fst f) \<and> path n = fst f"
  by (auto simp: parse_note_def Let_def split: entry.splits prod.splits sum.splits)

lemma build_notes_loop_errors:
  "build_notes_loop E fs ns = Inl e \<Longrightarrow> e = OSError \<or> e = AttributeError"
  by (induction fs arbitrary: ns) (auto split: sum.splits dest: parse_note_errors)

lemma build_notes_errors: "build_notes E fs = Inl e \<Longrightarrow> e = OSError \<or> e = AttributeError"
  unfolding build_notes_def by (rule build_notes_loop_errors)

lemma build_index_Inl:
  "build_index E v = (Inl e, v') \<longleftrightarrow>
   build_notes E (files v) = Inl e \<and> v' = v\<lparr>scans := scans v + 1\<rparr>"
  by (auto simp: build_index_def split: sum.splits)

lemma build_index_Inr:
  "build_index E v = (Inr x, v') \<longleftrightarrow>
   (\<exists>ns. build_notes E (files v) = Inr ns \<and>
         v' = v\<lparr>notes := Some ns, incoming_links := Some (build_incoming ns),
                scans := scans v + 1\<rparr>)"
  by (auto simp: build_index_def split: sum.splits)

lemma refresh_Inl:
  "refresh E v = (Inl e, v') \<longleftrightarrow>
   build_notes E (files v) = Inl e \<and>
   v' = v\<lparr>notes := None, incoming_links := None, scans := scans v + 1\<rparr>"
  by (auto simp: refresh_def build_index_Inl)

lemma refresh_Inr:
  "refresh E v = (Inr x, v') \<longleftrightarrow>
   (\<exists>ns. build_notes E (files v) = Inr ns \<and>
         v' = v\<lparr>notes := Some ns, incoming_links := Some (build_incoming ns),
                scans := scans v + 1\<rparr>)"
  by (auto simp: refresh_def build_index_Inr)

lemma build_index_errors:
  "build_index E v = (Inl e, v') \<Longrightarrow> e = OSError \<or> e = AttributeError"
  by (auto simp: build_index_Inl dest: build_notes_errors)

lemma refresh_errors: "refresh E v = (Inl e, v') \<Longrightarrow> e = OSError \<or> e = AttributeError"
  by (auto simp: refresh_Inl dest: build_notes_errors)

lemma ensure_index_errors:
  "ensure_index E v = (Inl e, v') \<Longrightarrow> e = OSError \<or> e = AttributeError"
  by (auto simp: ensure_index_def split: if_splits dest: build_index_errors)

lemma ensure_index_notes: "ensure_index E v = (Inr x, v') \<Longrightarrow> notes v' \<noteq> None"
  by (auto simp: ensure_index_def build_index_Inr split: if_splits)

lemma files_build_index: "files (snd (build_index E v)) = files v"
  by (simp add: build_index_def split: sum.splits)

lemma files_ensure_index: "files (snd (ensure_index E v)) = files v"
  by (simp add: ensure_index_def files_build_index)

lemma files_refresh: "files (snd (refresh E v)) = files v"
  using files_build_index[of E "v\<lparr>notes := None, incoming_links := None\<rparr>"]
  by (simp add: refresh_def)

lemma scans_refresh: "scans (snd (refresh E v)) = scans v + 1"
  by (simp add: refresh_def build_index_def split: sum.splits)

lemma ensure_index_filesD: "ensure_index E v = (r, v') \<Longrightarrow> files v' = files v"
  using files_ensure_index[of E v] by simp

lemma refresh_filesD: "refresh E v = (r, v') \<Longrightarrow> files v' = files v"
  using files_refresh[of E v] by simp

text \<open>
  \<open>get_note\<close> first makes sure an index exists.  When the name is in it, the note is
  returned and nothing is rebuilt.  When the name is missing, one rebuild is started
  (the count of scans goes up by one).  When the rebuild completes, the answer is read
  from the rebuilt index: the note if the rebuild found one of that name,
  \<open>NoteNotFoundError\<close> otherwise.  When the rebuild raises, \<open>get_note\<close> raises the same,
  and leaves the vault without an index.
\<close>

lemma get_note_cases:
  assumes "ensure_index E v = (r0, v1)"
  shows "(\<forall>e. r0 = Inl e \<longrightarrow> get_note E nm v = (Inl e, v1)) \<and>
         (r0 = Inr () \<longrightarrow>
            (\<forall>n. notes_get v1 nm = Some n \<longrightarrow> get_note E nm v = (Inr n, v1)) \<and>
            (notes_get v1 nm = None \<longrightarrow>
               get_note E nm v =
                 (case build_notes E (files v) of
                    Inl e \<Rightarrow>
                      (Inl e, v1\<lparr>notes := None, incoming_links := None,
                                  scans := scans v1 + 1\<rparr>)
                  | Inr ns \<Rightarrow>
                      (case map_of ns nm of
                         Some n' \<Rightarrow> Inr n' | None \<Rightarrow> Inl NoteNotFoundError,
                       v1\<lparr>notes := Some ns, incoming_links := Some (build_incoming ns),
                          scans := scans v1 + 1\<rparr>))))"
proof -
  have f: "files v1 = files v" using assms by (rule ensure_index_filesD)
  have n: "r0 = Inr () \<Longrightarrow> notes v1 \<noteq> None" using assms ensure_index_notes by blast
  show ?thesis
    using n
    by (auto simp: get_note_def op_bind_def assms f refresh_def build_index_def notes_get_def
        split: sum.splits option.splits)
qed

lemma get_note_files: "files (snd (get_note E nm v)) = files v"
proof -
  obtain r0 v1 where e: "ensure_index E v = (r0, v1)" by (cases "ensure_index E v")
  have f: "files v1 = files v" using e by (rule ensure_index_filesD)
  show ?thesis
    using files_refresh[of E v1]
    by (auto simp: get_note_def op_bind_def e f split: sum.splits option.splits prod.splits)
qed

lemma get_note_filesD: "get_note E nm v = (r, v') \<Longrightarrow> files v' = files v"
  using get_note_files[of E nm v] by simp

lemma get_incoming_links_filesD: "get_incoming_links E nm v = (r, v') \<Longrightarrow> files v' = files v"
  using files_ensure_index[of E v]
  by (auto simp: get_incoming_links_def op_bind_def split: sum.splits option.splits prod.splits)

subsection \<open>A file that does not parse\<close>

lemma scan_stale: "scan_files (files stale_vault) = files stale_vault"
  by (simp add: scan_files_def stale_vault_def u_def)

lemma parse_scalar:
  "yaml_safe_load E (u ''foo'') = YStr (u ''foo'') \<Longrightarrow>
   parse_note E ([u ''A.md''], File scalar_fm_file) = Inl AttributeError"
proof -
  assume a: "yaml_safe_load E (u ''foo'') = YStr (u ''foo'')"
  have m: "frontmatter_re_match scalar_fm_file = Some (u ''foo'', u ''body'')"
    by (simp add: frontmatter_re_match_def scalar_fm_file_def u_def)
  have r: "crlf_to_lf (dropWhile (\<lambda>c. c = 65279) (universal_newlines scalar_fm_file)) =
           scalar_fm_file"
    by (simp add: scalar_fm_file_def u_def)
  show ?thesis
    by (simp add: parse_note_def r m a extract_tags_def)
qed

lemma build_stale:
  "yaml_safe_load E (u ''foo'') = YStr (u ''foo'') \<Longrightarrow>
   build_notes E (files stale_vault) = Inl AttributeError"
  unfolding build_notes_def scan_stale by (simp add: stale_vault_def parse_scalar)

text \<open>
  Claim C8.  The file \<open>A.md\<close> is on disk, with front matter that is the one word \<open>foo\<close>, a
  string for YAML; the index is older than the file and does not have \<open>A\<close>.  Then
  \<open>get_note A\<close> misses, starts the one rebuild (the second scan), and the rebuild raises
  \<open>AttributeError\<close> in \<open>_extract_tags\<close>, for the front matter is no mapping.  \<open>get_note\<close>
  raises the same: it returns no note, although the file of that name is on disk, it
  does not raise \<open>NoteNotFoundError\<close>, and it leaves the vault without an index.
\<close>

theorem get_note_rebuild_raises:
  assumes "yaml_safe_load E (u ''foo'') = YStr (u ''foo'')"
  shows "map_of (files stale_vault) [u ''A.md''] = Some (File scalar_fm_file) \<and>
         notes_get stale_vault (u ''A'') = None \<and>
         get_note E (u ''A'') stale_vault =
           (Inl AttributeError,
            \<lparr>files = [([u ''A.md''], File scalar_fm_file)], notes = None,
             incoming_links = None, scans = 2\<rparr>)"
proof -
  have e: "ensure_index E stale_vault = (Inr (), stale_vault)"
    by (simp add: ensure_index_def stale_vault_def)
  have m: "notes_get stale_vault (u ''A'') = None"
    by (simp add: notes_get_def stale_vault_def)
  have "get_note E (u ''A'') stale_vault =
          (Inl AttributeError,
           stale_vault\<lparr>notes := None, incoming_links := None, scans := scans stale_vault + 1\<rparr>)"
    using get_note_cases[OF e, of "u ''A''"] m by (simp add: build_stale[OF assms])
  then show ?thesis using m by (simp add: stale_vault_def)
qed

theorem get_note_rebuild_raises_witness:
  "yaml_safe_load plain_env (u ''foo'') = YStr (u ''foo'') \<and>
   get_note plain_env (u ''A'') stale_vault =
     (Inl AttributeError,
      \<lparr>files = [([u ''A.md''], File scalar_fm_file)], notes = None,
       incoming_links = None, scans = 2\<rparr>)"
proof -
  have a: "yaml_safe_load plain_env (u ''foo'') = YStr (u ''foo'')"
    by (simp add: plain_env_def u_def)
  from get_note_rebuild_raises[OF a] a show ?thesis by simp
qed

subsection \<open>The reverse link map\<close>

lemma get_incoming_setdefault:
  "(case map_of (setdefault_append inc t s) T of None \<Rightarrow> [] | Some l \<Rightarrow> l) =
   (case map_of inc T of None \<Rightarrow> [] | Some l \<Rightarrow> l) @ (if T = t then [s] else [])"
  by (simp add: setdefault_append_def update_conv' split: option.splits)

lemma get_incoming_inner:
  "(case map_of (foldl (\<lambda>inc t. setdefault_append inc t s) inc ts) T
      of None \<Rightarrow> [] | Some l \<Rightarrow> l) =
   (case map_of inc T of None \<Rightarrow> [] | Some l \<Rightarrow> l) @ replicate (count_list ts T) s"
proof (induction ts arbitrary: inc)
  case Nil
  then show ?case by simp
next
  case (Cons t ts)
  show ?case
    by (simp add: Cons.IH get_incoming_setdefault replicate_app_Cons_same)
qed

lemma get_incoming_outer:
  "(case map_of (foldl (\<lambda>inc n. foldl (\<lambda>inc t. setdefault_append inc t (name n)) inc
                                   (outgoing_links n)) inc ns) T
      of None \<Rightarrow> [] | Some l \<Rightarrow> l) =
   (case map_of inc T of None \<Rightarrow> [] | Some l \<Rightarrow> l) @ sources_of T ns"
proof (induction ns arbitrary: inc)
  case Nil
  then show ?case by (simp add: sources_of_def)
next
  case (Cons n ns)
  show ?case
    by (simp add: Cons.IH get_incoming_inner sources_of_def)
qed

lemma build_incoming_get:
  "(case map_of (build_incoming ns) T of None \<Rightarrow> [] | Some l \<Rightarrow> l) =
   sources_of T (map snd ns)"
  unfolding build_incoming_def using get_incoming_outer[of "[]" "map snd ns" T] by simp

lemma set_sources_of:
  "set (sources_of T ns) = {name n | n. n \<in> set ns \<and> T \<in> set (outgoing_links n)}"
  by (auto simp: sources_of_def count_list_0_iff)

lemma count_list_replicate: "count_list (replicate k x) s = (if x = s then k else 0)"
  by (induction k) auto

lemma count_sources_of:
  "count_list (sources_of T ns) s =
   sum_list (map (\<lambda>n. if name n = s then count_list (outgoing_links n) T else 0) ns)"
  by (induction ns) (auto simp: sources_of_def count_list_replicate)

lemma list_all_update:
  "P (k, x) \<Longrightarrow> list_all P al \<Longrightarrow> list_all P (AList.update k x al)"
  by (induction al) auto

lemma build_notes_loop_keys:
  "list_all (\<lambda>kn. name (snd kn) = fst kn) acc \<Longrightarrow> build_notes_loop E fs acc = Inr ns \<Longrightarrow>
   list_all (\<lambda>kn. name (snd kn) = fst kn) ns"
proof (induction fs arbitrary: acc)
  case Nil
  then show ?case by simp
next
  case (Cons f fs)
  from Cons.prems(2) obtain n where p: "parse_note E f = Inr n"
    and l: "build_notes_loop E fs (AList.update (name n) n acc) = Inr ns"
    by (auto split: sum.splits)
  have "list_all (\<lambda>kn. name (snd kn) = fst kn) (AList.update (name n) n acc)"
    using Cons.prems(1) by (intro list_all_update) simp_all
  from Cons.IH[OF this l] show ?case .
qed

lemma build_notes_keys:
  "build_notes E fs = Inr ns \<Longrightarrow> list_all (\<lambda>kn. name (snd kn) = fst kn) ns"
  unfolding build_notes_def by (rule build_notes_loop_keys[of "[]"]) simp_all

lemma index_ok_build_index: "index_ok v \<Longrightarrow> index_ok (snd (build_index E v))"
  by (auto simp: index_ok_def build_index_def build_notes_keys split: sum.splits option.splits)

lemma index_ok_ensure_index: "index_ok v \<Longrightarrow> index_ok (snd (ensure_index E v))"
  by (simp add: ensure_index_def index_ok_build_index)


lemma index_ok_vault_of: "index_ok (vault_of fs)"
  by (simp add: index_ok_def vault_of_def)

lemma scan_twice: "scan_files fs_twice = fs_twice"
  by (simp add: scan_files_def fs_twice_def u_def)

lemma parse_twice_A:
  "parse_note plain_env ([u ''A.md''], File (u ''[[B]] [[B]]'')) =
     Inr \<lparr>name = u ''A'', path = [u ''A.md''], frontmatter = [], body = u ''[[B]] [[B]]'',
          outgoing_links = [u ''B'', u ''B''], tags = []\<rparr>"
  by (simp add: parse_note_def extract_tags_def plain_env_def stem_def frontmatter_re_match_def
      u_def wikilink_re_match_at_def)

lemma parse_B:
  "parse_note plain_env ([u ''B.md''], File (u ''x'')) =
     Inr \<lparr>name = u ''B'', path = [u ''B.md''], frontmatter = [], body = u ''x'',
          outgoing_links = [], tags = []\<rparr>"
  by (simp add: parse_note_def extract_tags_def plain_env_def stem_def frontmatter_re_match_def
      u_def wikilink_re_match_at_def)

lemma A_neq_B: "u ''A'' \<noteq> u ''B''"
  by (simp add: u_def)

lemma build_twice: "build_notes plain_env fs_twice = Inr notes_twice"
  unfolding build_notes_def scan_twice
  using A_neq_B by (simp add: fs_twice_def parse_twice_A parse_B notes_twice_def)

lemma get_incoming_links_vault_of:
  "build_notes E fs = Inr ns \<Longrightarrow>
   get_incoming_links E T (vault_of fs) =
     (Inr (sources_of T (map snd ns)),
      \<lparr>files = fs, notes = Some ns, incoming_links = Some (build_incoming ns), scans = 1\<rparr>)"
  by (simp add: get_incoming_links_def op_bind_def ensure_index_def vault_of_def
      build_index_def build_incoming_get)

lemma sources_twice: "sources_of (u ''B'') (map snd notes_twice) = [u ''A'', u ''A'']"
  by (simp add: sources_of_def notes_twice_def)

text \<open>
  Claim C1, amended.  For every target name \<open>T\<close>, on a vault whose index (if any) is as
  \<open>_build_index\<close> left it, \<open>get_incoming_links T\<close> returns \<open>sources_of T\<close> of the notes of
  the index: in the order of the notes, the name of each note once for every occurrence
  of \<open>T\<close> among its outgoing links.  As a set this is exactly the set of the names of the
  notes whose outgoing links contain \<open>T\<close>, whether or not \<open>T\<close> is itself a note; but a
  source whose links contain \<open>T\<close> several times appears that many times.
\<close>

theorem incoming_links_inverts_outgoing:
  assumes "index_ok v" and "notes (snd (get_incoming_links E T v)) = Some ns"
  shows "fst (get_incoming_links E T v) = Inr (sources_of T (map snd ns)) \<and>
         set (sources_of T (map snd ns)) =
           {name n | n. n \<in> snd ` set ns \<and> T \<in> set (outgoing_links n)} \<and>
         (\<forall>s. count_list (sources_of T (map snd ns)) s =
               sum_list (map (\<lambda>n. if name n = s then count_list (outgoing_links n) T else 0)
                           (map snd ns)))"
proof -
  obtain r0 v1 where e: "ensure_index E v = (r0, v1)" by (cases "ensure_index E v")
  have ok: "index_ok v1" using index_ok_ensure_index[OF assms(1), of E] e by simp
  have r: "r0 = Inr ()"
  proof (cases r0)
    case (Inl err)
    then have "v1 = v\<lparr>scans := scans v + 1\<rparr> \<and> notes v = None"
      using e by (auto simp: ensure_index_def build_index_Inl split: if_splits)
    then show ?thesis using assms(2) e Inl by (simp add: get_incoming_links_def op_bind_def)
  qed simp
  from assms(2) e r have n: "notes v1 = Some ns"
    by (simp add: get_incoming_links_def op_bind_def split: option.splits)
  from ok n have i: "incoming_links v1 = Some (build_incoming ns)"
    by (simp add: index_ok_def)
  have a: "fst (get_incoming_links E T v) = Inr (sources_of T (map snd ns))"
    by (simp add: get_incoming_links_def op_bind_def e r i build_incoming_get)
  have b: "set (sources_of T (map snd ns)) =
           {name n | n. n \<in> snd ` set ns \<and> T \<in> set (outgoing_links n)}"
    by (simp add: set_sources_of)
  show ?thesis using a b count_sources_of by blast
qed

text \<open>The amended claim C1 on the vault \<open>fs_twice\<close>, freshly opened, for the target \<open>B\<close>.\<close>

theorem incoming_links_inverts_outgoing_witness:
  "index_ok (vault_of fs_twice) \<and>
   notes (snd (get_incoming_links plain_env (u ''B'') (vault_of fs_twice))) = Some notes_twice \<and>
   fst (get_incoming_links plain_env (u ''B'') (vault_of fs_twice)) =
     Inr (sources_of (u ''B'') (map snd notes_twice)) \<and>
   sources_of (u ''B'') (map snd notes_twice) = [u ''A'', u ''A''] \<and>
   set (sources_of (u ''B'') (map snd notes_twice)) =
     {name n | n. n \<in> snd ` set notes_twice \<and> u ''B'' \<in> set (outgoing_links n)}"
proof -
  have n: "notes (snd (get_incoming_links plain_env (u ''B'') (vault_of fs_twice))) =
           Some notes_twice"
    by (simp add: get_incoming_links_vault_of[OF build_twice])
  from incoming_links_inverts_outgoing[OF index_ok_vault_of n]
  show ?thesis using n sources_twice index_ok_vault_of by blast
qed

text \<open>
  Claim C1 as stated fails: note \<open>A\<close> with the body \<open>[[B]] [[B]]\<close> has the outgoing links
  \<open>B, B\<close>, and the incoming links of \<open>B\<close> are \<open>A, A\<close>: the source appears twice.
\<close>

theorem incoming_links_duplicate_counterexample:
  "map_sum id outgoing_links (parse_note plain_env ([u ''A.md''], File (u ''[[B]] [[B]]''))) =
     Inr [u ''B'', u ''B''] \<and>
   fst (get_incoming_links plain_env (u ''B'') (vault_of fs_twice)) = Inr [u ''A'', u ''A''] \<and>
   \<not> distinct [u ''A'', u ''A'']"
  by (simp add: get_incoming_links_vault_of[OF build_twice] sources_twice parse_twice_A)

section \<open>Delete and rename\<close>

lemma u_append: "u a @ u b = u (a @ b)"
  by (simp add: u_def)

lemma get_note_hit:
  "notes v = Some ns \<Longrightarrow> map_of ns nm = Some n \<Longrightarrow> get_note E nm v = (Inr n, v)"
  by (simp add: get_note_def op_bind_def ensure_index_def notes_get_def)

lemma get_incoming_links_built:
  "notes v = Some ns \<Longrightarrow> incoming_links v = Some inc \<Longrightarrow>
   get_incoming_links E T v = (Inr (case map_of inc T of None \<Rightarrow> [] | Some l \<Rightarrow> l), v)"
  by (simp add: get_incoming_links_def op_bind_def ensure_index_def)

lemma ensure_index_vault_of:
  "build_notes E fs = Inr ns \<Longrightarrow>
   ensure_index E (vault_of fs) =
     (Inr (), \<lparr>files = fs, notes = Some ns, incoming_links = Some (build_incoming ns),
               scans = 1\<rparr>)"
  by (simp add: ensure_index_def vault_of_def build_index_def)

lemma refresh_built:
  "build_notes E (files v) = Inr ns \<Longrightarrow>
   refresh E v =
     (Inr (), v\<lparr>notes := Some ns, incoming_links := Some (build_incoming ns),
                scans := scans v + 1\<rparr>)"
  by (simp add: refresh_Inr)

lemma scan_alias: "scan_files fs_alias = fs_alias"
  by (simp add: scan_files_def fs_alias_def u_def)

lemma parse_alias_A:
  "parse_note plain_env ([u ''A.md''], File (u ''[[B|Alias]]'')) =
     Inr \<lparr>name = u ''A'', path = [u ''A.md''], frontmatter = [], body = u ''[[B|Alias]]'',
          outgoing_links = [], tags = []\<rparr>"
  by (simp add: parse_note_def extract_tags_def plain_env_def stem_def frontmatter_re_match_def
      u_def wikilink_re_match_at_def)

lemma build_alias: "build_notes plain_env fs_alias = Inr notes_alias"
  unfolding build_notes_def scan_alias
  using A_neq_B by (simp add: fs_alias_def parse_alias_A parse_B notes_alias_def)

lemma incoming_alias: "build_incoming notes_alias = []"
  by (simp add: build_incoming_def notes_alias_def)

lemma ensure_alias: "ensure_index plain_env (vault_of fs_alias) = (Inr (), built_alias)"
  by (simp add: ensure_index_vault_of[OF build_alias] incoming_alias built_alias_def)

lemma get_note_alias_B:
  "get_note plain_env (u ''B'') (vault_of fs_alias) =
     (Inr \<lparr>name = u ''B'', path = [u ''B.md''], frontmatter = [], body = u ''x'',
           outgoing_links = [], tags = []\<rparr>, built_alias)"
  using A_neq_B
  by (simp add: get_note_def op_bind_def ensure_alias notes_get_def)
     (simp add: built_alias_def notes_alias_def)

lemma incoming_alias_B:
  "get_incoming_links plain_env (u ''B'') built_alias = (Inr [], built_alias)"
  by (simp add: get_incoming_links_def op_bind_def ensure_index_def built_alias_def)

lemma mkdir_alias:
  "mkdir_exist_ok fs_alias [u ''.trash''] = Inr (fs_alias @ [([u ''.trash''], Dir)])"
  by (simp add: mkdir_exist_ok_def is_dir_def fs_alias_def u_def)

lemma trash_alias:
  "rename_path (fs_alias @ [([u ''.trash''], Dir)]) [u ''B.md''] [u ''.trash'', u ''B.md''] =
     Inr fs_alias_trashed"
  by (simp add: rename_path_def is_dir_def fs_alias_def fs_alias_trashed_def u_def)

lemma scan_trashed:
  "scan_files fs_alias_trashed = [([u ''A.md''], File (u ''[[B|Alias]]''))]"
  by (simp add: scan_files_def fs_alias_trashed_def u_def)

lemma build_trashed:
  "build_notes plain_env fs_alias_trashed =
     Inr [(u ''A'', \<lparr>name = u ''A'', path = [u ''A.md''], frontmatter = [],
                     body = u ''[[B|Alias]]'', outgoing_links = [], tags = []\<rparr>)]"
  unfolding build_notes_def scan_trashed by (simp add: parse_alias_A)

lemma incoming_twice: "build_incoming notes_twice = [(u ''B'', [u ''A'', u ''A''])]"
  by (simp add: build_incoming_def notes_twice_def setdefault_append_def)

lemma ensure_twice: "ensure_index plain_env (vault_of fs_twice) = (Inr (), built_twice)"
  by (simp add: ensure_index_vault_of[OF build_twice] incoming_twice built_twice_def)

lemma get_note_twice_B:
  "get_note plain_env (u ''B'') (vault_of fs_twice) =
     (Inr \<lparr>name = u ''B'', path = [u ''B.md''], frontmatter = [], body = u ''x'',
           outgoing_links = [], tags = []\<rparr>, built_twice)"
  using A_neq_B
  by (simp add: get_note_def op_bind_def ensure_twice notes_get_def)
     (simp add: built_twice_def notes_twice_def)

lemma incoming_twice_B:
  "get_incoming_links plain_env (u ''B'') built_twice = (Inr [u ''A'', u ''A''], built_twice)"
  by (simp add: get_incoming_links_def op_bind_def ensure_index_def built_twice_def)

lemma template_deleted:
  "template plain_env old_nm (u ''B (deleted)'') =
     Inr (\<lambda>g. u ''[['' @ u ''B (deleted)'' @ g @ u '']]'')"
  by (simp add: template_def u_def)

lemma subn_twice:
  "subn_links plain_env (u ''B'') (u ''B (deleted)'') (u ''[[B]] [[B]]'') =
     Inr (u ''[[B (deleted)]] [[B (deleted)]]'', 2)"
  by (simp add: subn_links_def template_deleted) (simp add: u_def link_re_match_at_def)

lemma subn_twice_again:
  "subn_links plain_env (u ''B'') (u ''B (deleted)'') (u ''[[B (deleted)]] [[B (deleted)]]'') =
     Inr (u ''[[B (deleted)]] [[B (deleted)]]'', 0)"
  by (simp add: subn_links_def template_deleted) (simp add: u_def link_re_match_at_def)

lemma un_plain1: "universal_newlines (u ''[[B]] [[B]]'') = u ''[[B]] [[B]]''"
  by (simp add: u_def)

lemma un_plain2:
  "universal_newlines (u ''[[B (deleted)]] [[B (deleted)]]'') = u ''[[B (deleted)]] [[B (deleted)]]''"
  by (simp add: u_def)

lemma get_note_twice_A:
  "get_note plain_env (u ''A'') (built_twice\<lparr>files := fs\<rparr>) =
     (Inr \<lparr>name = u ''A'', path = [u ''A.md''], frontmatter = [],
           body = u ''[[B]] [[B]]'', outgoing_links = [u ''B'', u ''B''], tags = []\<rparr>,
      built_twice\<lparr>files := fs\<rparr>)"
  by (rule get_note_hit[where ns = notes_twice]) (simp_all add: built_twice_def notes_twice_def)

lemma update_first:
  "update_links_in_file plain_env [u ''A.md''] (u ''B'') (u ''B (deleted)'')
     (built_twice\<lparr>files := fs_twice\<rparr>) =
     (Inr True, built_twice\<lparr>files := fs_twice_rewritten\<rparr>)"
  by (simp add: update_links_in_file_def op_bind_def op_read_text_def read_text_def
      fs_twice_def un_plain1 subn_twice op_lift_def op_write_text_def write_text_def
      is_dir_def op_return_def fs_twice_rewritten_def)

lemma update_second:
  "update_links_in_file plain_env [u ''A.md''] (u ''B'') (u ''B (deleted)'')
     (built_twice\<lparr>files := fs_twice_rewritten\<rparr>) =
     (Inr False, built_twice\<lparr>files := fs_twice_rewritten\<rparr>)"
  by (simp add: update_links_in_file_def op_bind_def op_read_text_def read_text_def
      fs_twice_rewritten_def un_plain2 subn_twice_again op_lift_def op_return_def)

lemma built_twice_files: "built_twice\<lparr>files := fs_twice\<rparr> = built_twice"
  by (simp add: built_twice_def)

lemma refs_twice:
  "update_refs_loop plain_env [u ''A'', u ''A''] (u ''B'') (u ''B (deleted)'') built_twice =
     (Inr (), built_twice\<lparr>files := fs_twice_rewritten\<rparr>)"
  using get_note_twice_A[of fs_twice] get_note_twice_A[of fs_twice_rewritten] update_first update_second
  by (simp add: op_bind_def op_return_def built_twice_files)

lemma mkdir_twice:
  "mkdir_exist_ok fs_twice_rewritten [u ''.trash''] =
     Inr (fs_twice_rewritten @ [([u ''.trash''], Dir)])"
  by (simp add: mkdir_exist_ok_def is_dir_def fs_twice_rewritten_def u_def)

lemma trash_twice:
  "rename_path (fs_twice_rewritten @ [([u ''.trash''], Dir)]) [u ''B.md'']
     [u ''.trash'', u ''B.md''] = Inr fs_twice_trashed"
  by (simp add: rename_path_def is_dir_def fs_twice_rewritten_def fs_twice_trashed_def u_def)

lemma scan_twice_trashed:
  "scan_files fs_twice_trashed =
     [([u ''A.md''], File (u ''[[B (deleted)]] [[B (deleted)]]''))]"
  by (simp add: scan_files_def fs_twice_trashed_def u_def)

lemma parse_twice_trashed:
  "\<exists>n. parse_note plain_env ([u ''A.md''], File (u ''[[B (deleted)]] [[B (deleted)]]'')) = Inr n"
  by (simp add: parse_note_def extract_tags_def plain_env_def frontmatter_re_match_def u_def
      Let_def)

lemma build_twice_trashed: "\<exists>ns. build_notes plain_env fs_twice_trashed = Inr ns"
  unfolding build_notes_def scan_twice_trashed using parse_twice_trashed by auto

lemma delete_twice:
  "\<exists>v'. delete plain_env (u ''B'') False (vault_of fs_twice) =
     (Inr \<lparr>delete_name = u ''B'', trash_path = [u ''.trash'', u ''B.md''],
           delete_files_updated = [u ''A'', u ''A'']\<rparr>, v') \<and> files v' = fs_twice_trashed"
proof -
  from build_twice_trashed obtain ns where b: "build_notes plain_env fs_twice_trashed = Inr ns"
    by blast
  have r: "refresh plain_env (built_twice\<lparr>files := fs_twice_trashed\<rparr>) =
             (Inr (), built_twice\<lparr>files := fs_twice_trashed, notes := Some ns,
                incoming_links := Some (build_incoming ns), scans := 2\<rparr>)"
    using refresh_built[of plain_env "built_twice\<lparr>files := fs_twice_trashed\<rparr>" ns] b
    by (simp add: built_twice_def)
  show ?thesis
    by (simp add: delete_def op_bind_def get_note_twice_B find_files_with_link_def Let_def
        incoming_twice_B refs_twice op_return_def op_mkdir_exist_ok_def mkdir_twice u_append
        op_rename_path_def trash_twice op_refresh_def r del: update_refs_loop.simps)
qed

lemma get_incoming_links_idem:
  "get_incoming_links E nm v = (Inr l, v') \<Longrightarrow> get_incoming_links E nm v' = (Inr l, v')"
proof -
  assume a: "get_incoming_links E nm v = (Inr l, v')"
  obtain r0 v1 where e: "ensure_index E v = (r0, v1)" by (cases "ensure_index E v")
  from a e have r: "r0 = Inr ()" and v: "v1 = v'"
    by (auto simp: get_incoming_links_def op_bind_def split: sum.splits option.splits)
  from e r v have "notes v' \<noteq> None" using ensure_index_notes by blast
  then have e': "ensure_index E v' = (Inr (), v')" by (auto simp: ensure_index_def)
  from a e r v show ?thesis
    by (auto simp: get_incoming_links_def op_bind_def e' split: option.splits)
qed

lemma delete_dry_files: "files (snd (delete E nm True v)) = files v"
  by (auto simp: delete_def op_bind_def op_return_def find_files_with_link_def Let_def
      split: prod.splits sum.splits)
     (metis get_note_filesD get_incoming_links_filesD)+

lemma rename_dry_files: "files (snd (rename E old_nm new_nm True v)) = files v"
  by (auto simp: rename_def op_bind_def op_return_def op_raise_def op_lift_def
      op_path_exists_def find_files_with_link_def Let_def
      split: prod.splits sum.splits)
     (metis get_note_filesD get_incoming_links_filesD)+

lemma delete_dry_same:
  "delete E nm False v = (Inr res, v') \<Longrightarrow> fst (delete E nm True v) = Inr res"
  by (auto simp: delete_def op_bind_def op_return_def find_files_with_link_def Let_def
      split: prod.splits sum.splits)

lemma rename_dry_same:
  "rename E old_nm new_nm False v = (Inr res, v') \<Longrightarrow>
   fst (rename E old_nm new_nm True v) = Inr res"
  by (auto simp: rename_def op_bind_def op_return_def op_raise_def op_lift_def
      op_path_exists_def find_files_with_link_def Let_def
      split: prod.splits sum.splits if_splits)

lemma delete_dry_list:
  "delete E nm True v = (Inr res, v') \<Longrightarrow>
   get_incoming_links E nm v' = (Inr (delete_files_updated res), v')"
  by (auto simp: delete_def op_bind_def op_return_def find_files_with_link_def Let_def
      split: prod.splits sum.splits dest: get_incoming_links_idem)

lemma rename_dry_list:
  "rename E old_nm new_nm True v = (Inr res, v') \<Longrightarrow>
   get_incoming_links E old_nm v' = (Inr (rename_files_updated res), v')"
  by (auto simp: rename_def op_bind_def op_return_def op_raise_def op_lift_def
      op_path_exists_def find_files_with_link_def Let_def
      split: prod.splits sum.splits if_splits dest: get_incoming_links_idem)

lemma delete_dry_error:
  "delete E nm True v = (Inl e, v') \<Longrightarrow> delete E nm False v = (Inl e, v')"
  by (auto simp: delete_def op_bind_def op_return_def find_files_with_link_def Let_def
      split: prod.splits sum.splits)

lemma rename_dry_error:
  "rename E old_nm new_nm True v = (Inl e, v') \<Longrightarrow> rename E old_nm new_nm False v = (Inl e, v')"
  by (auto simp: rename_def op_bind_def op_return_def op_raise_def op_lift_def
      op_path_exists_def find_files_with_link_def Let_def
      split: prod.splits sum.splits if_splits)

lemma delete_twice_dry:
  "delete plain_env (u ''B'') True (vault_of fs_twice) =
     (Inr \<lparr>delete_name = u ''B'', trash_path = [u ''.trash'', u ''B.md''],
           delete_files_updated = [u ''A'', u ''A'']\<rparr>, built_twice)"
  by (simp add: delete_def op_bind_def get_note_twice_B find_files_with_link_def Let_def
      incoming_twice_B op_return_def u_append)

lemma validate_name_C: "validate_name (tasks_emojis plain_env) (u ''C'') = Inr ()"
  by (simp add: validate_name_def cyrillic_search_def allowed_name_re_match_def
      allowed_name_char_def u_def)

lemma exists_C: "\<not> path_exists fs_alias [u ''C.md'']"
  by (simp add: path_exists_def fs_alias_def u_def)

lemma move_alias: "rename_path fs_alias [u ''B.md''] [u ''C.md''] = Inr fs_alias_renamed"
  by (simp add: rename_path_def is_dir_def fs_alias_def fs_alias_renamed_def u_def)

lemma built_alias_files: "files built_alias = fs_alias"
  by (simp add: built_alias_def)

lemma scan_renamed: "scan_files fs_alias_renamed = fs_alias_renamed"
  by (simp add: scan_files_def fs_alias_renamed_def u_def)

lemma parse_C:
  "\<exists>n. parse_note plain_env ([u ''C.md''], File (u ''x'')) = Inr n"
  by (simp add: parse_note_def extract_tags_def plain_env_def frontmatter_re_match_def u_def
      Let_def)

lemma build_renamed: "\<exists>ns. build_notes plain_env fs_alias_renamed = Inr ns"
  unfolding build_notes_def scan_renamed using parse_C
  by (auto simp: fs_alias_renamed_def parse_alias_A)

lemma rename_alias:
  "\<exists>v'. rename plain_env (u ''B'') (u ''C'') False (vault_of fs_alias) =
     (Inr \<lparr>old_name = u ''B'', new_name = u ''C'', rename_files_updated = []\<rparr>, v') \<and>
     files v' = fs_alias_renamed"
proof -
  from build_renamed obtain ns where b: "build_notes plain_env fs_alias_renamed = Inr ns"
    by blast
  have r: "refresh plain_env (built_alias\<lparr>files := fs_alias_renamed\<rparr>) =
             (Inr (), built_alias\<lparr>files := fs_alias_renamed, notes := Some ns,
                incoming_links := Some (build_incoming ns), scans := 2\<rparr>)"
    using refresh_built[of plain_env "built_alias\<lparr>files := fs_alias_renamed\<rparr>" ns] b
    by (simp add: built_alias_def)
  show ?thesis
    by (simp add: rename_def op_bind_def op_lift_def validate_name_C get_note_alias_B
        op_path_exists_def built_alias_files exists_C u_append find_files_with_link_def Let_def
        incoming_alias_B op_return_def op_rename_path_def move_alias op_refresh_def r)
qed

lemma rename_alias_dry:
  "rename plain_env (u ''B'') (u ''C'') True (vault_of fs_alias) =
     (Inr \<lparr>old_name = u ''B'', new_name = u ''C'', rename_files_updated = []\<rparr>, built_alias)"
  by (simp add: rename_def op_bind_def op_lift_def validate_name_C get_note_alias_B
      op_path_exists_def built_alias_files exists_C u_append find_files_with_link_def Let_def
      incoming_alias_B op_return_def)

lemma delete_alias:
  "delete plain_env (u ''B'') False (vault_of fs_alias) =
     (Inr \<lparr>delete_name = u ''B'', trash_path = [u ''.trash'', u ''B.md''],
           delete_files_updated = []\<rparr>, trashed_alias)"
proof -
  have r: "refresh plain_env (built_alias\<lparr>files := fs_alias_trashed\<rparr>) = (Inr (), trashed_alias)"
    by (subst refresh_built[where ns = "[(u ''A'', \<lparr>name = u ''A'', path = [u ''A.md''],
          frontmatter = [], body = u ''[[B|Alias]]'', outgoing_links = [], tags = []\<rparr>)]"])
       (simp_all add: built_alias_def build_trashed build_incoming_def trashed_alias_def)
  show ?thesis
    by (simp add: delete_def op_bind_def get_note_alias_B find_files_with_link_def Let_def
        incoming_alias_B op_return_def op_mkdir_exist_ok_def built_alias_files mkdir_alias
        u_append op_rename_path_def trash_alias op_refresh_def r)
qed

text \<open>
  Claim C2 says that \<open>delete\<close> rewrites every link to the deleted note that carries an
  alias or a section, in every note that holds one.  The code visits only the notes listed
  as incoming links, and \<open>_WIKILINK_RE\<close> lists a note only for a link without alias and
  without section.  On \<open>fs_alias\<close>, where \<open>A\<close> is \<open>[[B|Alias]]\<close>, deleting \<open>B\<close> reports no
  file, moves \<open>B\<close> to the trash and leaves \<open>A\<close> as it was, although the rewriting rule of
  \<open>_update_links_in_file\<close> turns that text into \<open>[[B (deleted)|Alias]]\<close>.
\<close>

theorem delete_skips_alias_only_referrer:
  "fst (delete plain_env (u ''B'') False (vault_of fs_alias)) =
     Inr \<lparr>delete_name = u ''B'', trash_path = [u ''.trash'', u ''B.md''],
          delete_files_updated = []\<rparr> \<and>
   files (snd (delete plain_env (u ''B'') False (vault_of fs_alias))) =
     [([u ''A.md''], File (u ''[[B|Alias]]'')), ([u ''.trash''], Dir),
      ([u ''.trash'', u ''B.md''], File (u ''x''))] \<and>
   subn_links plain_env (u ''B'') (u ''B (deleted)'') (u ''[[B|Alias]]'') =
     Inr (u ''[[B (deleted)|Alias]]'', 1)"
proof -
  have s: "subn_links plain_env (u ''B'') (u ''B (deleted)'') (u ''[[B|Alias]]'') =
           Inr (u ''[[B (deleted)|Alias]]'', 1)"
    by (simp add: subn_links_def template_deleted) (simp add: u_def link_re_match_at_def)
  show ?thesis using s by (simp add: delete_alias trashed_alias_def fs_alias_trashed_def)
qed

text \<open>
  Claim C3.  A dry run of \<open>delete\<close> or of \<open>rename\<close> leaves the files as they are, for
  every name and every vault.  Whenever the real run returns a result, the dry run returns
  the same result, with the same list of updated files; that list is the answer of the
  index for the target, whatever the texts of the listed files hold.  When the dry run
  raises an error, so does the real run, in the same state.
\<close>

theorem dry_run_writes_nothing:
  "files (snd (delete E nm True v)) = files v \<and>
   files (snd (rename E old_nm new_nm True v)) = files v \<and>
   (delete E nm False v = (Inr dres, dv) \<longrightarrow> fst (delete E nm True v) = Inr dres) \<and>
   (rename E old_nm new_nm False v = (Inr rres, rv) \<longrightarrow>
      fst (rename E old_nm new_nm True v) = Inr rres) \<and>
   (delete E nm True v = (Inr dres', dv') \<longrightarrow>
      get_incoming_links E nm dv' = (Inr (delete_files_updated dres'), dv')) \<and>
   (rename E old_nm new_nm True v = (Inr rres', rv') \<longrightarrow>
      get_incoming_links E old_nm rv' = (Inr (rename_files_updated rres'), rv')) \<and>
   (delete E nm True v = (Inl e, ev) \<longrightarrow> delete E nm False v = (Inl e, ev)) \<and>
   (rename E old_nm new_nm True v = (Inl e', ev') \<longrightarrow>
      rename E old_nm new_nm False v = (Inl e', ev'))"
  by (intro conjI impI)
     (simp_all add: delete_dry_files rename_dry_files delete_dry_same rename_dry_same
        delete_dry_list rename_dry_list delete_dry_error rename_dry_error)

text \<open>
  Claim C3 on two vaults: deleting \<open>B\<close> from \<open>fs_twice\<close>, where the real run finds nothing
  left to rewrite on its second visit of \<open>A\<close>, and renaming \<open>B\<close> to \<open>C\<close> in \<open>fs_alias\<close>.
\<close>

theorem dry_run_writes_nothing_witness:
  "files (snd (delete plain_env (u ''B'') True (vault_of fs_twice))) = fs_twice \<and>
   fst (delete plain_env (u ''B'') False (vault_of fs_twice)) =
     Inr \<lparr>delete_name = u ''B'', trash_path = [u ''.trash'', u ''B.md''],
          delete_files_updated = [u ''A'', u ''A'']\<rparr> \<and>
   fst (delete plain_env (u ''B'') True (vault_of fs_twice)) =
     Inr \<lparr>delete_name = u ''B'', trash_path = [u ''.trash'', u ''B.md''],
          delete_files_updated = [u ''A'', u ''A'']\<rparr> \<and>
   get_incoming_links plain_env (u ''B'') built_twice = (Inr [u ''A'', u ''A''], built_twice) \<and>
   files (snd (rename plain_env (u ''B'') (u ''C'') True (vault_of fs_alias))) = fs_alias \<and>
   fst (rename plain_env (u ''B'') (u ''C'') False (vault_of fs_alias)) =
     Inr \<lparr>old_name = u ''B'', new_name = u ''C'', rename_files_updated = []\<rparr> \<and>
   fst (rename plain_env (u ''B'') (u ''C'') True (vault_of fs_alias)) =
     Inr \<lparr>old_name = u ''B'', new_name = u ''C'', rename_files_updated = []\<rparr>"
proof -
  from delete_twice obtain dv where
    dt: "delete plain_env (u ''B'') False (vault_of fs_twice) =
           (Inr \<lparr>delete_name = u ''B'', trash_path = [u ''.trash'', u ''B.md''],
                 delete_files_updated = [u ''A'', u ''A'']\<rparr>, dv)" by blast
  from rename_alias obtain rv where
    ra: "rename plain_env (u ''B'') (u ''C'') False (vault_of fs_alias) =
           (Inr \<lparr>old_name = u ''B'', new_name = u ''C'', rename_files_updated = []\<rparr>, rv)"
    by blast
  note d = dry_run_writes_nothing[of plain_env "u ''B''" "vault_of fs_twice" "u ''B''" "u ''C''"
      "\<lparr>delete_name = u ''B'', trash_path = [u ''.trash'', u ''B.md''],
        delete_files_updated = [u ''A'', u ''A'']\<rparr>" dv
      _ _
      "\<lparr>delete_name = u ''B'', trash_path = [u ''.trash'', u ''B.md''],
        delete_files_updated = [u ''A'', u ''A'']\<rparr>" built_twice]
  note r = dry_run_writes_nothing[of plain_env _ "vault_of fs_alias" "u ''B''" "u ''C''" _ _
      "\<lparr>old_name = u ''B'', new_name = u ''C'', rename_files_updated = []\<rparr>" rv]
  have f: "files (vault_of fs_twice) = fs_twice" "files (vault_of fs_alias) = fs_alias"
    by (simp_all add: vault_of_def)
  show ?thesis
    using d r dt delete_twice_dry ra f by simp
qed

section \<open>Nested fences\<close>

lemma parse_loop_inner:
  "in_code_block st \<Longrightarrow> current_fence_length st = n \<Longrightarrow> list_all (shorter_than n) inner \<Longrightarrow>
   parse_code_blocks_loop i (inner @ rest) st = parse_code_blocks_loop (i + length inner) rest st"
proof (induction inner arbitrary: i)
  case Nil
  then show ?case by simp
next
  case (Cons ln inner)
  then show ?case by (auto simp: shorter_than_def split: option.splits)
qed

lemma parse_nested:
  assumes "fence_re_match opener = Some n" "list_all (shorter_than n) inner"
    "fence_re_match closer = Some m" "n \<le> m"
  shows "parse_code_blocks (opener # inner @ [closer]) = Inr ([(1, length inner + 2)], [])"
  using assms
  by (simp add: parse_code_blocks_def fence_init_def parse_loop_inner)

lemma headings_loop_inner:
  "list_all (shorter_than n) inner \<Longrightarrow>
   get_headings_loop (inner @ rest) True n hs = get_headings_loop rest True n hs"
  by (induction inner) (auto simp: shorter_than_def split: option.splits)

lemma headings_nested:
  assumes "fence_re_match opener = Some n" "list_all (shorter_than n) inner"
    "fence_re_match closer = Some m" "n \<le> m"
  shows "get_headings_loop (opener # inner @ [closer]) False 0 [] = []"
  using assms by (simp add: headings_loop_inner)

lemma fence_not_table: "fence_re_match ln = Some n \<Longrightarrow> \<not> table_line_re_match ln"
  by (cases ln) (auto simp: fence_re_match_def table_line_re_match_def Let_def split: if_splits)

lemma check_tables_nested:
  assumes "fence_re_match opener = Some n"
  shows "check_tables (opener # inner @ [closer]) [(1, length inner + 2)] = []"
proof -
  have "check_tables_at (opener # inner @ [closer]) [(1, length inner + 2)] i = []"
    if "i < length inner + 1" for i
  proof (cases i)
    case 0
    then show ?thesis using fence_not_table[OF assms]
      by (simp add: check_tables_at_def is_inside_code_block_def)
  next
    case (Suc j)
    then show ?thesis using that
      by (simp add: check_tables_at_def is_inside_code_block_def)
  qed
  then show ?thesis by (simp add: check_tables_def)
qed

lemma validate_nested:
  assumes "split_nl content = opener # inner @ [closer]"
    "fence_re_match opener = Some n" "list_all (shorter_than n) inner"
    "fence_re_match closer = Some m" "n \<le> m"
  shows "validate content = Inr []"
  using assms parse_nested[OF assms(2-5)] check_tables_nested[OF assms(2)]
  by (simp add: validate_def)

lemma split_nested:
  "split_nl nested_body = u ''````'' # [u ''```'', u ''# x'', u ''```''] @ [u ''````'']"
  by (simp add: nested_body_def u_def)

lemma fence4: "fence_re_match (u ''````'') = Some 4"
  by (simp add: fence_re_match_def u_def)

lemma inner_short: "list_all (shorter_than 4) [u ''```'', u ''# x'', u ''```'']"
  by (simp add: shorter_than_def fence_re_match_def u_def)

lemma heading_inner: "heading_re_match (u ''# x'') = Some (1, u ''x'')"
  by (simp add: heading_re_match_def u_def is_space_def)

lemma get_headings_of_note:
  "get_note E nm v = (Inr nt, v') \<Longrightarrow> get_headings E nm v = (Inr (headings_of_body (body nt)), v')"
  by (simp add: get_headings_def op_bind_def op_return_def)

lemma scan_N: "scan_files [([u ''N.md''], t)] = [([u ''N.md''], t)]"
  by (simp add: scan_files_def u_def)

lemma un_nested: "universal_newlines nested_body = nested_body"
  by (simp add: nested_body_def u_def)

lemma fm_nested: "frontmatter_re_match nested_body = None"
  by (simp add: nested_body_def frontmatter_re_match_def u_def)

lemma stem_N: "stem [u ''N.md''] = u ''N''"
  by (simp add: stem_def u_def)

lemma parse_nested_N:
  "parse_note plain_env ([u ''N.md''], File nested_body) =
     Inr \<lparr>name = u ''N'', path = [u ''N.md''], frontmatter = [], body = nested_body,
          outgoing_links = extract_wikilinks nested_body, tags = []\<rparr>"
proof -
  have a: "dropWhile (\<lambda>c. c = 65279) nested_body = nested_body"
    "crlf_to_lf nested_body = nested_body"
    by (simp_all add: nested_body_def u_def)
  show ?thesis
    by (simp add: parse_note_def un_nested a fm_nested stem_N Let_def extract_tags_def)
qed

lemma get_note_single:
  "parse_note E ([u ''N.md''], File t) = Inr n \<Longrightarrow>
   get_note E (u ''N'') (vault_of [([u ''N.md''], File t)]) =
     (Inr n,
      \<lparr>files = [([u ''N.md''], File t)], notes = Some [(u ''N'', n)],
       incoming_links = Some (build_incoming [(u ''N'', n)]), scans = 1\<rparr>)"
proof -
  assume p: "parse_note E ([u ''N.md''], File t) = Inr n"
  then have nm: "name n = u ''N''" using parse_note_name_path[OF p] by (simp add: stem_N)
  have b: "build_notes E [([u ''N.md''], File t)] = Inr [(u ''N'', n)]"
    by (simp add: build_notes_def scan_N p nm)
  show ?thesis
    by (simp add: get_note_def op_bind_def ensure_index_vault_of[OF b] notes_get_def)
qed

text \<open>
  Claim C4.  Let the lines of a body be an opening fence line of \<open>n\<close> backticks, then
  lines that are no fence line or start with fewer than \<open>n\<close> backticks (with \<open>n\<close> at least
  4 these include fence lines of 3 backticks), then a line that starts with at least \<open>n\<close>
  backticks.  Then \<open>validate\<close> returns no warning at all, so no unclosed-code-block warning:
  the scanner finds the single closed range from the first line to the last.  And
  \<open>get_headings\<close> returns no heading for a note with that body.
\<close>

theorem nested_fence_closed:
  assumes "split_nl content = opener # inner @ [closer]"
    and "fence_re_match opener = Some n"
    and "list_all (shorter_than n) inner"
    and "fence_re_match closer = Some m" and "n \<le> m"
  shows "validate content = Inr [] \<and>
         parse_code_blocks (split_nl content) = Inr ([(1, length inner + 2)], []) \<and>
         headings_of_body content = [] \<and>
         (get_note E nm v = (Inr nt, v') \<and> body nt = content \<longrightarrow>
            get_headings E nm v = (Inr [], v'))"
proof -
  have h: "headings_of_body content = []"
    using assms headings_nested[OF assms(2-5)] by (simp add: headings_of_body_def)
  have p: "parse_code_blocks (split_nl content) = Inr ([(1, length inner + 2)], [])"
    using assms(1) parse_nested[OF assms(2-5)] by simp
  show ?thesis
    using validate_nested[OF assms] h p get_headings_of_note[of E nm v nt v'] by auto
qed

text \<open>Claim C4 on a fence of four backticks around a fence of three and the line \<open># x\<close>.\<close>

theorem nested_fence_closed_witness:
  "split_nl nested_body = u ''````'' # [u ''```'', u ''# x'', u ''```''] @ [u ''````''] \<and>
   fence_re_match (u ''````'') = Some 4 \<and>
   fence_re_match (u ''```'') = Some 3 \<and>
   heading_re_match (u ''# x'') = Some (1, u ''x'') \<and>
   validate nested_body = Inr [] \<and>
   headings_of_body nested_body = [] \<and>
   fst (get_headings plain_env (u ''N'') (vault_of [([u ''N.md''], File nested_body)])) = Inr []"
proof -
  note g = get_note_single[OF parse_nested_N]
  have f3: "fence_re_match (u ''```'') = Some 3" by (simp add: fence_re_match_def u_def)
  from nested_fence_closed[OF split_nested fence4 inner_short fence4 le_refl,
      of plain_env "u ''N''" "vault_of [([u ''N.md''], File nested_body)]"
         "\<lparr>name = u ''N'', path = [u ''N.md''], frontmatter = [], body = nested_body,
           outgoing_links = extract_wikilinks nested_body, tags = []\<rparr>"
         "\<lparr>files = [([u ''N.md''], File nested_body)],
           notes = Some [(u ''N'', \<lparr>name = u ''N'', path = [u ''N.md''], frontmatter = [],
                                     body = nested_body,
                                     outgoing_links = extract_wikilinks nested_body,
                                     tags = []\<rparr>)],
           incoming_links = Some (build_incoming
              [(u ''N'', \<lparr>name = u ''N'', path = [u ''N.md''], frontmatter = [],
                           body = nested_body, outgoing_links = extract_wikilinks nested_body,
                           tags = []\<rparr>)]),
           scans = 1\<rparr>"]
  show ?thesis using g split_nested fence4 f3 heading_inner by simp
qed

section \<open>Sections\<close>

lemma parse_note_plain:
  assumes "universal_newlines t = t" "dropWhile (\<lambda>c. c = 65279) t = t" "crlf_to_lf t = t"
    "frontmatter_re_match t = None"
  shows "parse_note E (p, File t) =
     Inr \<lparr>name = stem p, path = p, frontmatter = [], body = t,
          outgoing_links = extract_wikilinks t, tags = []\<rparr>"
  using assms by (simp add: parse_note_def Let_def extract_tags_def)

lemma get_note_plain:
  assumes "universal_newlines t = t" "dropWhile (\<lambda>c. c = 65279) t = t" "crlf_to_lf t = t"
    "frontmatter_re_match t = None"
  shows "get_note E (u ''N'') (vault_of [([u ''N.md''], File t)]) =
           (Inr (plain_note t), built_single t)"
  using get_note_single[of E t "plain_note t"]
  by (simp add: parse_note_plain[OF assms] stem_N plain_note_def built_single_def)

lemma read_section_of_note:
  "get_note E nm v = (Inr nt, v') \<Longrightarrow>
   find_section_bounds (split_nl (body nt)) section = Inr (start, end, lvl) \<Longrightarrow>
   read_section E nm section v = (Inr (strip (join_nl (slice (split_nl (body nt)) start end))), v')"
  by (simp add: read_section_def op_bind_def op_return_def op_lift_def Let_def)

lemma bounds_selector:
  "find_section_bounds (split_nl fenced_selector_body) (u ''H'') = Inr (2, 4, 2)"
  by (simp add: fenced_selector_body_def find_section_bounds_def strip_def lstrip_def rstrip_def
      search_re_match_def end_re_match_def is_space_def u_def)

lemma bounds_end:
  "find_section_bounds (split_nl fenced_end_body) (u ''A'') = Inr (1, 2, 1)"
  by (simp add: fenced_end_body_def find_section_bounds_def strip_def lstrip_def rstrip_def
      search_re_match_def end_re_match_def is_space_def u_def)

lemma bounds_end_hash:
  "find_section_bounds (split_nl fenced_end_body) (u ''# A'') = Inr (1, 2, 1)"
  by (simp add: fenced_end_body_def find_section_bounds_def strip_def lstrip_def rstrip_def
      search_re_match_def end_re_match_def is_space_def u_def)

lemma ranges_selector: "parse_code_blocks (split_nl fenced_selector_body) = Inr ([(1, 4)], [])"
  by (simp add: fenced_selector_body_def parse_code_blocks_def fence_init_def fence_re_match_def u_def)

lemma ranges_end: "parse_code_blocks (split_nl fenced_end_body) = Inr ([(2, 4)], [])"
  by (simp add: fenced_end_body_def parse_code_blocks_def fence_init_def fence_re_match_def u_def)

lemma headings_selector: "headings_of_body fenced_selector_body = []"
  by (simp add: fenced_selector_body_def headings_of_body_def fence_re_match_def
      heading_re_match_def is_space_def u_def)

lemma headings_end: "headings_of_body fenced_end_body = [\<lparr>level = 1, text = u ''A''\<rparr>]"
  by (simp add: fenced_end_body_def headings_of_body_def fence_re_match_def
      heading_re_match_def is_space_def strip_def lstrip_def rstrip_def u_def)

lemma get_note_selector:
  "get_note plain_env (u ''N'') (vault_of [([u ''N.md''], File fenced_selector_body)]) =
     (Inr (plain_note fenced_selector_body), built_single fenced_selector_body)"
  by (rule get_note_plain) (simp_all add: fenced_selector_body_def frontmatter_re_match_def u_def)

lemma get_note_end:
  "get_note plain_env (u ''N'') (vault_of [([u ''N.md''], File fenced_end_body)]) =
     (Inr (plain_note fenced_end_body), built_single fenced_end_body)"
  by (rule get_note_plain) (simp_all add: fenced_end_body_def frontmatter_re_match_def u_def)

lemma body_plain_note: "body (plain_note t) = t"
  by (simp add: plain_note_def)

lemma slice_selector:
  "strip (join_nl (slice (split_nl fenced_selector_body) 2 4)) = u ''X\<newline>```''"
  by (simp add: fenced_selector_body_def slice_def strip_def lstrip_def rstrip_def is_space_def u_def)

lemma slice_end: "strip (join_nl (slice (split_nl fenced_end_body) 1 2)) = u ''```''"
  by (simp add: fenced_end_body_def slice_def strip_def lstrip_def rstrip_def is_space_def u_def)

text \<open>
  Claim C9.  Section bounds take no notice of code fences.  In \<open>fenced_selector_body\<close> the
  line \<open>## H\<close> is line 2, strictly inside the closed fence of lines 1 to 4; \<open>get_headings\<close>
  gives no heading, yet the selector \<open>H\<close> matches that line and \<open>read_section\<close> returns the
  lines after it.  In \<open>fenced_end_body\<close> the line \<open># c\<close> is line 3, strictly inside the
  closed fence of lines 2 to 4; \<open>get_headings\<close> gives only \<open>A\<close>, yet the section \<open>A\<close> ends
  at that line.  \<open>update_section\<close> and \<open>delete_section\<close> take their bounds from the same
  \<open>find_section_bounds\<close>.
\<close>

theorem section_bounds_ignore_fences:
  "parse_code_blocks (split_nl fenced_selector_body) = Inr ([(1, 4)], []) \<and>
   is_inside_code_block 2 [(1, 4)] \<and>
   headings_of_body fenced_selector_body = [] \<and>
   find_section_bounds (split_nl fenced_selector_body) (u ''H'') = Inr (2, 4, 2) \<and>
   split_nl fenced_selector_body ! 1 = u ''## H'' \<and>
   fst (read_section plain_env (u ''N'') (u ''H'')
          (vault_of [([u ''N.md''], File fenced_selector_body)])) = Inr (u ''X\<newline>```'') \<and>
   parse_code_blocks (split_nl fenced_end_body) = Inr ([(2, 4)], []) \<and>
   is_inside_code_block 3 [(2, 4)] \<and>
   headings_of_body fenced_end_body = [\<lparr>level = 1, text = u ''A''\<rparr>] \<and>
   find_section_bounds (split_nl fenced_end_body) (u ''A'') = Inr (1, 2, 1) \<and>
   split_nl fenced_end_body ! 2 = u ''# c'' \<and>
   fst (read_section plain_env (u ''N'') (u ''A'')
          (vault_of [([u ''N.md''], File fenced_end_body)])) = Inr (u ''```'')"
proof -
  have l: "split_nl fenced_selector_body ! 1 = u ''## H''" "split_nl fenced_end_body ! 2 = u ''# c''"
    by (simp_all add: fenced_selector_body_def fenced_end_body_def u_def)
  have i: "is_inside_code_block 2 [(1, 4)]" "is_inside_code_block 3 [(2, 4)]"
    by (simp_all add: is_inside_code_block_def)
  have r1: "fst (read_section plain_env (u ''N'') (u ''H'')
          (vault_of [([u ''N.md''], File fenced_selector_body)])) = Inr (u ''X\<newline>```'')"
    using read_section_of_note[OF get_note_selector, of "u ''H''" 2 4 2] bounds_selector slice_selector
    by (simp add: body_plain_note)
  have r2: "fst (read_section plain_env (u ''N'') (u ''A'')
          (vault_of [([u ''N.md''], File fenced_end_body)])) = Inr (u ''```'')"
    using read_section_of_note[OF get_note_end, of "u ''A''" 1 2 1] bounds_end slice_end
    by (simp add: body_plain_note)
  show ?thesis
    using l i r1 r2 ranges_selector ranges_end headings_selector headings_end bounds_selector bounds_end
    by simp
qed

lemma search_loop_bounds:
  "search_loop m i lines = Some (s, L) \<Longrightarrow>
   i < s \<and> s \<le> i + length lines \<and> m (strip (lines ! (s - 1 - i))) = Some L"
proof (induction lines arbitrary: i)
  case Nil
  then show ?case by simp
next
  case (Cons ln rest)
  show ?case
  proof (cases "m (strip ln)")
    case None
    with Cons.prems have "search_loop m (i + 1) rest = Some (s, L)" by simp
    from Cons.IH[OF this] have ih: "i + 1 < s" "s \<le> i + 1 + length rest"
      "m (strip (rest ! (s - 1 - (i + 1)))) = Some L" by auto
    from ih(1) have "s - 1 - i = Suc (s - 1 - (i + 1))" by simp
    then have "(ln # rest) ! (s - 1 - i) = rest ! (s - 1 - (i + 1))" by simp
    with ih show ?thesis by simp
  next
    case (Some a)
    with Cons.prems show ?thesis by auto
  qed
qed

lemma end_loop_props:
  "i \<le> end_loop L i xs \<and> end_loop L i xs \<le> i + length xs \<and>
   (\<forall>j. j < end_loop L i xs - i \<longrightarrow> \<not> end_re_match L (xs ! j)) \<and>
   (end_loop L i xs < i + length xs \<longrightarrow> end_re_match L (xs ! (end_loop L i xs - i)))"
proof (induction xs arbitrary: i)
  case Nil
  then show ?case by simp
next
  case (Cons ln rest)
  show ?case
  proof (cases "end_re_match L ln")
    case True
    then show ?thesis by simp
  next
    case False
    have e: "end_loop L i (ln # rest) = end_loop L (i + 1) rest" using False by simp
    from Cons.IH[of "i + 1"] have ih:
      "i + 1 \<le> end_loop L (i + 1) rest" "end_loop L (i + 1) rest \<le> i + 1 + length rest"
      "\<And>j. j < end_loop L (i + 1) rest - (i + 1) \<Longrightarrow> \<not> end_re_match L (rest ! j)"
      "end_loop L (i + 1) rest < i + 1 + length rest \<Longrightarrow>
         end_re_match L (rest ! (end_loop L (i + 1) rest - (i + 1)))"
      by auto
    have a: "\<not> end_re_match L ((ln # rest) ! j)" if "j < end_loop L (i + 1) rest - i" for j
    proof (cases j)
      case 0
      then show ?thesis using False by simp
    next
      case (Suc k)
      with that have "k < end_loop L (i + 1) rest - (i + 1)" by simp
      from ih(3)[OF this] show ?thesis using Suc by simp
    qed
    have b: "end_re_match L ((ln # rest) ! (end_loop L (i + 1) rest - i))"
      if "end_loop L (i + 1) rest < i + length (ln # rest)"
    proof -
      from that have "end_loop L (i + 1) rest < i + 1 + length rest" by simp
      from ih(4)[OF this] have "end_re_match L (rest ! (end_loop L (i + 1) rest - (i + 1)))" .
      moreover from ih(1) have "end_loop L (i + 1) rest - i = Suc (end_loop L (i + 1) rest - (i + 1))"
        by simp
      ultimately show ?thesis by simp
    qed
    show ?thesis unfolding e using ih(1,2) a b by auto
  qed
qed

lemma hash_level_pos:
  "s \<noteq> [] \<Longrightarrow> hd s = (35::nat) \<Longrightarrow> 1 \<le> length s - length (dropWhile (\<lambda>c. c = 35) s)"
proof (cases s)
  case Nil
  assume "s \<noteq> []"
  with Nil show ?thesis by simp
next
  case (Cons c cs)
  assume "hd s = 35"
  with Cons have "dropWhile (\<lambda>c. c = 35) s = dropWhile (\<lambda>c. c = 35) cs" by simp
  moreover have "length (dropWhile (\<lambda>c. c = 35) cs) \<le> length cs" by (rule length_dropWhile_le)
  ultimately show ?thesis using Cons by simp
qed

lemma search_re_match_pos: "search_re_match sec ln = Some L \<Longrightarrow> 1 \<le> L"
  by (auto simp: search_re_match_def Let_def split: if_splits)
     (metis One_nat_def Suc_leI length_greater_0_conv)

lemma search_loop_first:
  "search_loop m i lines = Some (s, L) \<Longrightarrow> j < s - 1 - i \<Longrightarrow> m (strip (lines ! j)) = None"
proof (induction lines arbitrary: i j)
  case Nil
  then show ?case by simp
next
  case (Cons ln rest)
  show ?case
  proof (cases "m (strip ln)")
    case None
    with Cons.prems have sl: "search_loop m (i + 1) rest = Some (s, L)" by simp
    show ?thesis
    proof (cases j)
      case 0
      then show ?thesis using None by simp
    next
      case (Suc j')
      with Cons.prems(2) have "j' < s - 1 - (i + 1)" by simp
      from Cons.IH[OF sl this] show ?thesis using Suc by simp
    qed
  next
    case (Some a)
    with Cons.prems show ?thesis by auto
  qed
qed

lemma search_loop_none:
  "search_loop m i lines = None \<Longrightarrow> j < length lines \<Longrightarrow> m (strip (lines ! j)) = None"
proof (induction lines arbitrary: i j)
  case Nil
  then show ?case by simp
next
  case (Cons ln rest)
  from Cons.prems(1) have n: "m (strip ln) = None" and sl: "search_loop m (i + 1) rest = None"
    by (auto split: option.splits)
  show ?case
  proof (cases j)
    case 0
    then show ?thesis using n by simp
  next
    case (Suc j')
    with Cons.prems(2) have "j' < length rest" by simp
    from Cons.IH[OF sl this] show ?thesis using Suc by simp
  qed
qed

lemma rstrip_eq_iff:
  "rstrip xs = sel \<longleftrightarrow> (\<exists>w. xs = sel @ w \<and> list_all is_space w) \<and> rstrip sel = sel"
proof
  assume a: "rstrip xs = sel"
  have "xs = rev (dropWhile is_space (rev xs)) @ rev (takeWhile is_space (rev xs))"
    by (metis rev_append rev_rev_ident takeWhile_dropWhile_id)
  then have "xs = sel @ rev (takeWhile is_space (rev xs))"
    using a by (simp add: rstrip_def)
  moreover have "list_all is_space (rev (takeWhile is_space (rev xs)))"
    by (simp add: list_all_iff) (meson set_takeWhileD)
  moreover have "rstrip sel = sel" using a by (auto simp: rstrip_def)
  ultimately show "(\<exists>w. xs = sel @ w \<and> list_all is_space w) \<and> rstrip sel = sel" by blast
next
  assume "(\<exists>w. xs = sel @ w \<and> list_all is_space w) \<and> rstrip sel = sel"
  then obtain w where x: "xs = sel @ w" and w: "list_all is_space w" and r: "rstrip sel = sel"
    by blast
  have "dropWhile is_space (rev w @ rev sel) = dropWhile is_space (rev sel)"
    using w by (intro dropWhile_append2) (simp add: list_all_iff)
  then show "rstrip xs = sel" using x r by (simp add: rstrip_def)
qed

lemma rstrip_strip: "rstrip (strip s) = strip s"
  by (simp add: strip_def rstrip_def)

lemma take_drop_suffix:
  "take (length sel) xs = sel \<and> list_all is_space (drop (length sel) xs) \<longleftrightarrow>
   (\<exists>w. xs = sel @ w \<and> list_all is_space w)"
proof
  assume a: "take (length sel) xs = sel \<and> list_all is_space (drop (length sel) xs)"
  have "xs = take (length sel) xs @ drop (length sel) xs" by simp
  with a have "xs = sel @ drop (length sel) xs" by simp
  with a show "\<exists>w. xs = sel @ w \<and> list_all is_space w" by blast
next
  assume "\<exists>w. xs = sel @ w \<and> list_all is_space w"
  then show "take (length sel) xs = sel \<and> list_all is_space (drop (length sel) xs)" by auto
qed

text \<open>
  The pattern \<open>^(#+)\s*<selector>\s*$\<close> on a stripped line, for a selector that does not
  end in white space: the line is a heading for the selector, and the group is its run
  of \<open>#\<close>.
\<close>

lemma search_re_match_iff:
  assumes "rstrip sel = sel"
  shows "search_re_match sel ln = Some k \<longleftrightarrow>
         k = hash_run ln \<and> 1 \<le> hash_run ln \<and> strip (drop (hash_run ln) ln) = sel"
proof -
  let ?after = "dropWhile is_space (dropWhile (\<lambda>c. c = 35) ln)"
  have d: "dropWhile (\<lambda>c. c = 35) ln = drop (hash_run ln) ln"
    by (simp add: hash_run_def dropWhile_eq_drop)
  have s: "strip (drop (hash_run ln) ln) = rstrip ?after"
    by (simp add: strip_def lstrip_def d)
  have c: "take (length sel) ?after = sel \<and> list_all is_space (drop (length sel) ?after) \<longleftrightarrow>
           rstrip ?after = sel"
    using take_drop_suffix[of sel ?after] rstrip_eq_iff[of ?after sel] assms by blast
  have h: "takeWhile (\<lambda>c. c = 35) ln \<noteq> [] \<longleftrightarrow> 1 \<le> hash_run ln"
    by (cases "takeWhile (\<lambda>c. c = 35) ln") (simp_all add: hash_run_def)
  show ?thesis
    unfolding s using c h
    by (auto simp: search_re_match_def Let_def hash_run_def)
qed

lemma hash_run_level:
  "length s - length (dropWhile (\<lambda>c. c = 35) s) = hash_run s"
proof -
  have "length (takeWhile (\<lambda>c. c = 35) s) + length (dropWhile (\<lambda>c. c = 35) s) = length s"
    by (metis length_append takeWhile_dropWhile_id)
  then show ?thesis by (simp add: hash_run_def)
qed

lemma end_re_match_iff:
  "end_re_match lvl ln \<longleftrightarrow>
   1 \<le> hash_run ln \<and> hash_run ln \<le> lvl \<and> hash_run ln < length ln \<and>
   is_space (ln ! hash_run ln)"
  by (simp add: end_re_match_def hash_run_def Let_def)

text \<open>The test of the first loop of \<open>_find_section_bounds\<close> on a stripped line.\<close>

lemma selector_test:
  fixes sel :: ustr
  assumes "rstrip sel = sel"
  defines "m \<equiv> (if sel \<noteq> [] \<and> hd sel = 35
      then (\<lambda>line_stripped. if line_stripped = sel
              then Some (length sel - length (dropWhile (\<lambda>c. c = 35) sel)) else None)
      else search_re_match sel)"
  shows "(m ln = Some k \<longleftrightarrow> heading_for sel ln \<and> k = hash_run ln)"
    and "(m ln = None \<longleftrightarrow> \<not> heading_for sel ln)"
proof -
  show a: "m ln = Some k \<longleftrightarrow> heading_for sel ln \<and> k = hash_run ln" for k
  proof (cases "sel \<noteq> [] \<and> hd sel = 35")
    case True
    then show ?thesis
      by (auto simp: m_def heading_for_def hash_run_level)
  next
    case False
    then show ?thesis
      using search_re_match_iff[OF assms(1), of ln k]
      by (auto simp: m_def heading_for_def)
  qed
  show "m ln = None \<longleftrightarrow> \<not> heading_for sel ln"
  proof (cases "m ln")
    case None
    then show ?thesis using a[of "hash_run ln"] by simp
  next
    case (Some k)
    then show ?thesis using a[of k] by simp
  qed
qed

lemma find_section_bounds_start:
  assumes "find_section_bounds lines section = Inr (start, end, lvl)"
  shows "heading_for (strip section) (strip (lines ! (start - 1))) \<and>
         lvl = hash_run (strip (lines ! (start - 1))) \<and>
         (\<forall>i. i < start - 1 \<longrightarrow> \<not> heading_for (strip section) (strip (lines ! i)))"
proof -
  let ?sec = "strip section"
  let ?m = "(if ?sec \<noteq> [] \<and> hd ?sec = 35
      then (\<lambda>line_stripped. if line_stripped = ?sec
              then Some (length ?sec - length (dropWhile (\<lambda>c. c = 35) ?sec)) else None)
      else search_re_match ?sec)"
  from assms have s: "search_loop ?m 0 lines = Some (start, lvl)"
    by (auto simp: find_section_bounds_def Let_def split: option.splits if_splits)
  from search_loop_bounds[OF s] have ml: "?m (strip (lines ! (start - 1))) = Some lvl" by auto
  have f: "?m (strip (lines ! i)) = None" if "i < start - 1" for i
    using search_loop_first[OF s, of i] that by simp
  show ?thesis
    using ml f selector_test[OF rstrip_strip, of "section"]
    by (simp only:) blast
qed

lemma find_section_bounds_none:
  assumes "find_section_bounds lines section = Inl e"
  shows "e = SectionNotFoundError \<and>
         (\<forall>i. i < length lines \<longrightarrow> \<not> heading_for (strip section) (strip (lines ! i)))"
proof -
  let ?sec = "strip section"
  let ?m = "(if ?sec \<noteq> [] \<and> hd ?sec = 35
      then (\<lambda>line_stripped. if line_stripped = ?sec
              then Some (length ?sec - length (dropWhile (\<lambda>c. c = 35) ?sec)) else None)
      else search_re_match ?sec)"
  from assms have s: "search_loop ?m 0 lines = None" and e: "e = SectionNotFoundError"
    by (auto simp: find_section_bounds_def Let_def split: option.splits if_splits)
  have f: "?m (strip (lines ! i)) = None" if "i < length lines" for i
    using search_loop_none[OF s that] .
  show ?thesis
    using e f selector_test(2)[OF rstrip_strip, of "section"]
    by (simp only:) blast
qed

lemma find_section_bounds_props:
  assumes "find_section_bounds lines section = Inr (start, end, lvl)"
  shows "1 \<le> lvl \<and> 1 \<le> start \<and> start \<le> end \<and> end \<le> length lines \<and>
         (\<forall>i. start \<le> i \<and> i < end \<longrightarrow> \<not> end_re_match lvl (lines ! i)) \<and>
         (end < length lines \<longrightarrow> end_re_match lvl (lines ! end))"
proof -
  let ?sec = "strip section"
  let ?m = "(if ?sec \<noteq> [] \<and> hd ?sec = 35
      then (\<lambda>line_stripped. if line_stripped = ?sec
              then Some (length ?sec - length (dropWhile (\<lambda>c. c = 35) ?sec)) else None)
      else search_re_match ?sec)"
  from assms have s: "search_loop ?m 0 lines = Some (start, lvl)"
    and e: "end = end_loop lvl start (drop start lines)"
    by (auto simp: find_section_bounds_def Let_def split: option.splits if_splits)
  from search_loop_bounds[OF s] have b: "0 < start" "start \<le> length lines"
    and ml: "?m (strip (lines ! (start - 1))) = Some lvl" by auto
  have lv: "1 \<le> lvl"
  proof (cases "?sec \<noteq> [] \<and> hd ?sec = 35")
    case True
    with ml have "lvl = length ?sec - length (dropWhile (\<lambda>c. c = 35) ?sec)"
      by (auto split: if_splits)
    with True hash_level_pos[of ?sec] show ?thesis by simp
  next
    case False
    with ml have "search_re_match ?sec (strip (lines ! (start - 1))) = Some lvl"
      by auto
    then show ?thesis by (rule search_re_match_pos)
  qed
  note p = end_loop_props[of start lvl "drop start lines"]
  have l: "length (drop start lines) = length lines - start" by simp
  have u1: "start \<le> end" "end \<le> length lines" using p b e by auto
  have u2: "\<not> end_re_match lvl (lines ! i)" if "start \<le> i" "i < end" for i
  proof -
    from that e have "i - start < end_loop lvl start (drop start lines) - start" by simp
    with p have "\<not> end_re_match lvl (drop start lines ! (i - start))" by blast
    moreover have "drop start lines ! (i - start) = lines ! i"
      using that u1 by simp
    ultimately show ?thesis by simp
  qed
  have u3: "end_re_match lvl (lines ! end)" if "end < length lines"
  proof -
    from that e b have "end_loop lvl start (drop start lines) < start + length (drop start lines)"
      by simp
    with p have "end_re_match lvl (drop start lines ! (end_loop lvl start (drop start lines) - start))"
      by blast
    moreover have "drop start lines ! (end - start) = lines ! end" using that u1 by simp
    ultimately show ?thesis using e by simp
  qed
  show ?thesis using lv b u1 u2 u3 by auto
qed

lemma validate_total: "\<exists>ws. validate content = Inr ws"
  using parse_code_blocks_total[of "split_nl content"] by (auto simp: validate_def)

lemma serialize_note_empty: "serialize_note E [] b = b"
  by (simp add: serialize_note_def)

lemma bounds_spec: "find_section_bounds (split_nl spec_body) (u ''H'') = Inr (1, 2, 2)"
  by (simp add: spec_body_def find_section_bounds_def strip_def lstrip_def rstrip_def
      search_re_match_def end_re_match_def is_space_def u_def)

lemma slice_spec: "strip (join_nl (slice (split_nl spec_body) 1 2)) = u ''X''"
  by (simp add: spec_body_def slice_def strip_def lstrip_def rstrip_def is_space_def u_def)

lemma new_body_spec:
  "join_nl (take (1 - 1) (split_nl spec_body) @ [split_nl spec_body ! (1 - 1), u ''Z'']
            @ drop 2 (split_nl spec_body)) = spec_body_updated"
  by (simp add: spec_body_def spec_body_updated_def u_def)

lemma headings_ok_updated: "validate_headings spec_body_updated = Inr ()"
  by (simp add: spec_body_updated_def validate_headings_def parse_code_blocks_def fence_init_def
      fence_re_match_def is_inside_code_block_def heading_re_match_def is_space_def
      cyrillic_search_def u_def)

lemma no_links_updated: "wikilinks_with_section spec_body_updated = []"
  by (simp add: spec_body_updated_def wikilink_with_section_re_match_at_def u_def)

lemma read_section_spec:
  "get_note E nm v = (Inr nt, v1) \<Longrightarrow> body nt = spec_body \<Longrightarrow>
   read_section E nm (u ''H'') v = (Inr (u ''X''), v1)"
  using read_section_of_note[of E nm v nt v1 "u ''H''" 1 2 2] bounds_spec slice_spec by simp

lemma update_section_spec:
  assumes "get_note E nm v = (Inr nt, v1)" "body nt = spec_body"
  shows "(case write_text (files v) (path nt)
                (serialize_note E (frontmatter nt) spec_body_updated) of
            Inl e \<Rightarrow> update_section E nm (u ''H'') (u ''Z'') v = (Inl e, v1)
          | Inr fs' \<Rightarrow>
              files (snd (update_section E nm (u ''H'') (u ''Z'') v)) = fs' \<and>
              (case refresh E (v1\<lparr>files := fs'\<rparr>) of
                 (Inl e, v2) \<Rightarrow> update_section E nm (u ''H'') (u ''Z'') v = (Inl e, v2)
               | (Inr x, v2) \<Rightarrow>
                   (\<exists>ws. update_section E nm (u ''H'') (u ''Z'') v =
                           (Inr \<lparr>warnings = ws\<rparr>, v2))))"
proof -
  obtain ws where w: "validate (serialize_note E (frontmatter nt) spec_body_updated) = Inr ws"
    using validate_total by blast
  have f: "files v1 = files v" using assms(1) by (rule get_note_filesD)
  have r: "files v2 = fs'" if "refresh E (v1\<lparr>files := fs'\<rparr>) = (x, v2)" for fs' x v2
    using refresh_filesD[OF that] by simp
  show ?thesis
    using assms new_body_spec
    by (auto simp: update_section_def op_bind_def op_lift_def bounds_spec Let_def
        headings_ok_updated validate_wikilinks_def no_links_updated op_return_def
        op_write_text_def op_refresh_def w f split: sum.splits prod.splits dest: r)
qed

lemma parse_updated:
  "parse_note E (p, File spec_body_updated) =
     Inr \<lparr>name = stem p, path = p, frontmatter = [], body = spec_body_updated,
          outgoing_links = extract_wikilinks spec_body_updated, tags = []\<rparr>"
  by (rule parse_note_plain)
     (simp_all add: spec_body_updated_def frontmatter_re_match_def u_def)

lemma get_note_spec:
  "get_note plain_env (u ''N'') (vault_of [([u ''N.md''], File spec_body)]) =
     (Inr (plain_note spec_body), built_single spec_body)"
  by (rule get_note_plain) (simp_all add: spec_body_def frontmatter_re_match_def u_def)

lemma get_note_tag:
  "get_note plain_env (u ''N'') (vault_of [([u ''N.md''], File tag_body)]) =
     (Inr (plain_note tag_body), built_single tag_body)"
  by (rule get_note_plain) (simp_all add: tag_body_def frontmatter_re_match_def u_def)

lemma bounds_spec_hash:
  "find_section_bounds (split_nl spec_body) (u ''## H'') = Inr (1, 2, 2)"
  by (simp add: spec_body_def find_section_bounds_def strip_def lstrip_def rstrip_def
      search_re_match_def end_re_match_def is_space_def u_def)

lemma bounds_tag: "find_section_bounds (split_nl tag_body) (u ''H'') = Inr (1, 4, 2)"
  by (simp add: tag_body_def find_section_bounds_def strip_def lstrip_def rstrip_def
      search_re_match_def end_re_match_def is_space_def u_def)

lemma slice_tag:
  "strip (join_nl (slice (split_nl tag_body) 1 4)) = u ''X\<newline>#tag\<newline>Y''"
  by (simp add: tag_body_def slice_def strip_def lstrip_def rstrip_def is_space_def u_def)

text \<open>
  Claim C5, amended.  When \<open>find_section_bounds\<close> returns \<open>(start, end, lvl)\<close>, line \<open>start\<close>
  (counted from 1) is the first line that, stripped, is a heading for the stripped
  selector, and \<open>lvl\<close> is the number of \<open>#\<close> at the start of that stripped line; the body
  starts after that line, and \<open>end\<close> is the index of the first line from \<open>start\<close> on that
  begins with between one and \<open>lvl\<close> characters \<open>#\<close> followed by a white-space character,
  or the number of lines if there is none.  When it raises, it raises
  \<open>SectionNotFoundError\<close> and no line is a heading for the selector.  For a note with the
  body \<open>## H\<close>, \<open>X\<close>, \<open>## H2\<close>, \<open>Y\<close>, \<open>read_section\<close> of \<open>H\<close> returns \<open>X\<close>, and
  \<open>update_section\<close> of \<open>H\<close> with \<open>Z\<close> writes the front matter of the note with the body
  \<open>## H\<close>, \<open>Z\<close>, \<open>## H2\<close>, \<open>Y\<close>, unless the file cannot be written; it returns its warnings
  unless the rebuild of the index raises.  Without front matter the file is that body,
  and it is read back as that body.
\<close>

theorem section_read_update:
  "(find_section_bounds lines section = Inr (start, end, lvl) \<longrightarrow>
      1 \<le> start \<and> start \<le> end \<and> end \<le> length lines \<and>
      heading_for (strip section) (strip (lines ! (start - 1))) \<and>
      (\<forall>i. i < start - 1 \<longrightarrow> \<not> heading_for (strip section) (strip (lines ! i))) \<and>
      lvl = hash_run (strip (lines ! (start - 1))) \<and> 1 \<le> lvl \<and>
      (\<forall>i. start \<le> i \<and> i < end \<longrightarrow>
           \<not> (1 \<le> hash_run (lines ! i) \<and> hash_run (lines ! i) \<le> lvl \<and>
              hash_run (lines ! i) < length (lines ! i) \<and>
              is_space (lines ! i ! hash_run (lines ! i)))) \<and>
      (end < length lines \<longrightarrow>
           1 \<le> hash_run (lines ! end) \<and> hash_run (lines ! end) \<le> lvl \<and>
           hash_run (lines ! end) < length (lines ! end) \<and>
           is_space (lines ! end ! hash_run (lines ! end)))) \<and>
   (find_section_bounds lines section = Inl e \<longrightarrow>
      e = SectionNotFoundError \<and>
      (\<forall>i. i < length lines \<longrightarrow> \<not> heading_for (strip section) (strip (lines ! i)))) \<and>
   (get_note E nm v = (Inr nt, v1) \<and> body nt = spec_body \<longrightarrow>
      read_section E nm (u ''H'') v = (Inr (u ''X''), v1) \<and>
      (case write_text (files v) (path nt)
              (serialize_note E (frontmatter nt) spec_body_updated) of
         Inl e' \<Rightarrow> update_section E nm (u ''H'') (u ''Z'') v = (Inl e', v1)
       | Inr fs' \<Rightarrow>
           files (snd (update_section E nm (u ''H'') (u ''Z'') v)) = fs' \<and>
           (case refresh E (v1\<lparr>files := fs'\<rparr>) of
              (Inl e', v2) \<Rightarrow> update_section E nm (u ''H'') (u ''Z'') v = (Inl e', v2)
            | (Inr x, v2) \<Rightarrow>
                (\<exists>ws. update_section E nm (u ''H'') (u ''Z'') v =
                        (Inr \<lparr>warnings = ws\<rparr>, v2))))) \<and>
   serialize_note E [] spec_body_updated = spec_body_updated \<and>
   map_sum id body (parse_note E (p, File spec_body_updated)) = Inr spec_body_updated"
proof -
  have a: "find_section_bounds lines section = Inr (start, end, lvl) \<longrightarrow>
      1 \<le> start \<and> start \<le> end \<and> end \<le> length lines \<and>
      heading_for (strip section) (strip (lines ! (start - 1))) \<and>
      (\<forall>i. i < start - 1 \<longrightarrow> \<not> heading_for (strip section) (strip (lines ! i))) \<and>
      lvl = hash_run (strip (lines ! (start - 1))) \<and> 1 \<le> lvl \<and>
      (\<forall>i. start \<le> i \<and> i < end \<longrightarrow>
           \<not> (1 \<le> hash_run (lines ! i) \<and> hash_run (lines ! i) \<le> lvl \<and>
              hash_run (lines ! i) < length (lines ! i) \<and>
              is_space (lines ! i ! hash_run (lines ! i)))) \<and>
      (end < length lines \<longrightarrow>
           1 \<le> hash_run (lines ! end) \<and> hash_run (lines ! end) \<le> lvl \<and>
           hash_run (lines ! end) < length (lines ! end) \<and>
           is_space (lines ! end ! hash_run (lines ! end)))"
    using find_section_bounds_props[of lines "section" start "end" lvl]
      find_section_bounds_start[of lines "section" start "end" lvl]
    by (simp add: end_re_match_iff)
  have b: "find_section_bounds lines section = Inl e \<longrightarrow>
      e = SectionNotFoundError \<and>
      (\<forall>i. i < length lines \<longrightarrow> \<not> heading_for (strip section) (strip (lines ! i)))"
    using find_section_bounds_none[of lines "section" e] by simp
  have c: "get_note E nm v = (Inr nt, v1) \<and> body nt = spec_body \<longrightarrow>
      read_section E nm (u ''H'') v = (Inr (u ''X''), v1) \<and>
      (case write_text (files v) (path nt)
              (serialize_note E (frontmatter nt) spec_body_updated) of
         Inl e' \<Rightarrow> update_section E nm (u ''H'') (u ''Z'') v = (Inl e', v1)
       | Inr fs' \<Rightarrow>
           files (snd (update_section E nm (u ''H'') (u ''Z'') v)) = fs' \<and>
           (case refresh E (v1\<lparr>files := fs'\<rparr>) of
              (Inl e', v2) \<Rightarrow> update_section E nm (u ''H'') (u ''Z'') v = (Inl e', v2)
            | (Inr x, v2) \<Rightarrow>
                (\<exists>ws. update_section E nm (u ''H'') (u ''Z'') v =
                        (Inr \<lparr>warnings = ws\<rparr>, v2))))"
    using read_section_spec[of E nm v nt v1] update_section_spec[of E nm v nt v1] by simp
  have d: "serialize_note E [] spec_body_updated = spec_body_updated"
    by (rule serialize_note_empty)
  have e: "map_sum id body (parse_note E (p, File spec_body_updated)) = Inr spec_body_updated"
    by (simp add: parse_updated)
  from a b c d e show ?thesis by (intro conjI)
qed

text \<open>
  The amended claim C5 on a fresh vault whose only note \<open>N\<close> has the body of the example,
  for the selectors \<open>H\<close> and \<open>## H\<close>, and for the selector \<open>Q\<close>, which no line matches.
\<close>

theorem section_read_update_witness:
  "find_section_bounds (split_nl spec_body) (u ''H'') = Inr (1, 2, 2) \<and>
   find_section_bounds (split_nl spec_body) (u ''## H'') = Inr (1, 2, 2) \<and>
   find_section_bounds (split_nl spec_body) (u ''Q'') = Inl SectionNotFoundError \<and>
   split_nl spec_body ! 0 = u ''## H'' \<and>
   heading_for (u ''H'') (u ''## H'') \<and> heading_for (u ''## H'') (u ''## H'') \<and>
   hash_run (u ''## H'') = 2 \<and>
   split_nl spec_body ! 2 = u ''## H2'' \<and>
   hash_run (u ''## H2'') = 2 \<and> is_space (u ''## H2'' ! 2) \<and>
   \<not> heading_for (u ''Q'') (u ''## H'') \<and>
   fst (read_section plain_env (u ''N'') (u ''H'') (vault_of [([u ''N.md''], File spec_body)])) =
     Inr (u ''X'') \<and>
   files (snd (update_section plain_env (u ''N'') (u ''H'') (u ''Z'')
                 (vault_of [([u ''N.md''], File spec_body)]))) =
     [([u ''N.md''], File spec_body_updated)] \<and>
   (\<exists>ws. fst (update_section plain_env (u ''N'') (u ''H'') (u ''Z'')
                (vault_of [([u ''N.md''], File spec_body)])) = Inr \<lparr>warnings = ws\<rparr>) \<and>
   map_sum id body (parse_note plain_env ([u ''N.md''], File spec_body_updated)) =
     Inr spec_body_updated"
proof -
  let ?v = "vault_of [([u ''N.md''], File spec_body)]"
  note t = section_read_update[of "split_nl spec_body" "u ''H''" 1 2 2 _
      plain_env "u ''N''" ?v "plain_note spec_body" "built_single spec_body" "[u ''N.md'']"]
  note t2 = section_read_update[of "split_nl spec_body" "u ''## H''" 1 2 2]
  note t3 = section_read_update[of "split_nl spec_body" "u ''Q''" _ _ _ SectionNotFoundError]
  have q: "find_section_bounds (split_nl spec_body) (u ''Q'') = Inl SectionNotFoundError"
    by (simp add: spec_body_def find_section_bounds_def strip_def lstrip_def rstrip_def
        search_re_match_def is_space_def u_def)
  have l: "split_nl spec_body ! 0 = u ''## H''" "split_nl spec_body ! 2 = u ''## H2''"
    "length (split_nl spec_body) = 4"
    by (simp_all add: spec_body_def u_def)
  have st: "strip (u ''## H'') = u ''## H''" "strip (u ''H'') = u ''H''" "strip (u ''Q'') = u ''Q''"
    by (simp_all add: strip_def lstrip_def rstrip_def is_space_def u_def)
  have w: "write_text (files ?v) [u ''N.md''] spec_body_updated =
             Inr [([u ''N.md''], File spec_body_updated)]"
    by (simp add: write_text_def is_dir_def vault_of_def)
  have bn: "build_notes plain_env [([u ''N.md''], File spec_body_updated)] =
              Inr [(u ''N'', plain_note spec_body_updated)]"
    by (simp add: build_notes_def scan_N parse_updated stem_N plain_note_def)
  have rf: "refresh plain_env
              ((built_single spec_body)\<lparr>files := [([u ''N.md''], File spec_body_updated)]\<rparr>) =
            (Inr (), built_single spec_body_updated
                       \<lparr>scans := 2\<rparr>)"
    by (subst refresh_built[where ns = "[(u ''N'', plain_note spec_body_updated)]"])
       (simp_all add: bn built_single_def)
  have fv: "files ?v = [([u ''N.md''], File spec_body)]" by (simp add: vault_of_def)
  note ta = t[THEN conjunct1, THEN mp, OF bounds_spec]
  note tc = t[THEN conjunct2, THEN conjunct2, THEN conjunct1, THEN mp,
      OF conjI[OF get_note_spec body_plain_note]]
  from ta l st have h1: "heading_for (u ''H'') (u ''## H'')" and r1: "hash_run (u ''## H'') = 2"
    and e1: "is_space (u ''## H2'' ! hash_run (u ''## H2''))" "hash_run (u ''## H2'') \<le> 2"
    by simp_all
  have e2: "hash_run (u ''## H2'') = 2" by (simp add: hash_run_def u_def)
  from tc have r: "read_section plain_env (u ''N'') (u ''H'') ?v =
                     (Inr (u ''X''), built_single spec_body)"
    by simp
  have pn: "path (plain_note spec_body) = [u ''N.md'']" "frontmatter (plain_note spec_body) = []"
    by (simp_all add: plain_note_def)
  from tc have up: "files (snd (update_section plain_env (u ''N'') (u ''H'') (u ''Z'') ?v)) =
               [([u ''N.md''], File spec_body_updated)]"
      "\<exists>ws. update_section plain_env (u ''N'') (u ''H'') (u ''Z'') ?v =
              (Inr \<lparr>warnings = ws\<rparr>, built_single spec_body_updated\<lparr>scans := 2\<rparr>)"
    by (simp_all add: pn serialize_note_empty w rf)
  from t have p: "map_sum id body (parse_note plain_env ([u ''N.md''], File spec_body_updated)) =
              Inr spec_body_updated"
    by simp
  from t2[THEN conjunct1, THEN mp, OF bounds_spec_hash] l st
  have h2: "heading_for (u ''## H'') (u ''## H'')" by simp
  from t3[THEN conjunct2, THEN conjunct1, THEN mp, OF q]
  have "\<not> heading_for (strip (u ''Q'')) (strip (split_nl spec_body ! 0))"
    using l(3) by simp
  then have h3: "\<not> heading_for (u ''Q'') (u ''## H'')" using l st by simp
  from up(2) have up': "\<exists>ws. fst (update_section plain_env (u ''N'') (u ''H'') (u ''Z'') ?v) =
                           Inr \<lparr>warnings = ws\<rparr>" by auto
  from e1 e2 have e3: "is_space (u ''## H2'' ! 2)" by simp
  show ?thesis
    using bounds_spec bounds_spec_hash q l(1,2) h1 h2 h3 r1 e2 e3 r up(1) up' p
    by (intro conjI) simp_all
qed

text \<open>
  Claim C5 as stated fails: in \<open>tag_body\<close> the line \<open>#tag\<close> after the heading \<open>## H\<close> has a
  leading run of one \<open>#\<close>, which is at most the level 2, but no white space follows the
  run; the section does not end there, it runs to the end of the document.
\<close>

theorem section_end_hash_run_counterexample:
  "find_section_bounds (split_nl tag_body) (u ''H'') = Inr (1, 4, 2) \<and>
   split_nl tag_body ! 2 = u ''#tag'' \<and>
   length (takeWhile (\<lambda>c. c = 35) (u ''#tag'')) = 1 \<and>
   fst (read_section plain_env (u ''N'') (u ''H'') (vault_of [([u ''N.md''], File tag_body)])) =
     Inr (u ''X\<newline>#tag\<newline>Y'')"
proof -
  have l: "split_nl tag_body ! 2 = u ''#tag''" "length (takeWhile (\<lambda>c. c = 35) (u ''#tag'')) = 1"
    by (simp_all add: tag_body_def u_def)
  have r: "fst (read_section plain_env (u ''N'') (u ''H'') (vault_of [([u ''N.md''], File tag_body)])) =
     Inr (u ''X\<newline>#tag\<newline>Y'')"
    using read_section_of_note[OF get_note_tag, of "u ''H''" 1 4 2] bounds_tag slice_tag
    by (simp add: body_plain_note)
  show ?thesis using l r bounds_tag by simp
qed

section \<open>Checks before a write\<close>

lemma get_note_errors:
  "get_note E nm v = (Inl e, v') \<Longrightarrow>
   e = NoteNotFoundError \<or> e = OSError \<or> e = AttributeError"
proof -
  assume a: "get_note E nm v = (Inl e, v')"
  obtain r0 v1 where e0: "ensure_index E v = (r0, v1)" by (cases "ensure_index E v")
  show ?thesis
  proof (cases r0)
    case (Inl e')
    with a e0 have "e = e'" by (simp add: get_note_def op_bind_def)
    with Inl e0 ensure_index_errors show ?thesis by blast
  next
    case (Inr x)
    with e0 have n: "notes v1 \<noteq> None" using ensure_index_notes by blast
    obtain r2 v2 where r: "refresh E v1 = (r2, v2)" by (cases "refresh E v1")
    from a e0 Inr n r refresh_errors[of E v1 _ v2] show ?thesis
      by (auto simp: get_note_def op_bind_def split: option.splits sum.splits)
  qed
qed

lemma get_headings_errors:
  "get_headings E nm v = (Inl e, v') \<Longrightarrow>
   e = NoteNotFoundError \<or> e = OSError \<or> e = AttributeError"
  by (auto simp: get_headings_def op_bind_def op_return_def split: prod.splits sum.splits
      dest: get_note_errors)

lemma get_headings_filesD: "get_headings E nm v = (r, v') \<Longrightarrow> files v' = files v"
  by (auto simp: get_headings_def op_bind_def op_return_def split: prod.splits sum.splits
      dest: get_note_filesD)

lemma validate_wikilinks_loop_props:
  "validate_wikilinks_loop E ms ws v = (r, v') \<Longrightarrow>
   files v' = files v \<and>
   (\<forall>e. r = Inl e \<longrightarrow>
        e = BrokenLinkError \<or> e = NoteNotFoundError \<or> e = OSError \<or> e = AttributeError)"
proof (induction ms arbitrary: ws v)
  case Nil
  then show ?case by (auto simp: op_return_def)
next
  case (Cons m ms)
  obtain r1 v1 where g: "get_note E (strip (fst m)) v = (r1, v1)" by (cases "get_note E (strip (fst m)) v")
  from g have f1: "files v1 = files v" by (rule get_note_filesD)
  show ?case
  proof (cases r1)
    case (Inl e)
    with g have e: "e = NoteNotFoundError \<or> e = OSError \<or> e = AttributeError"
      by (auto dest: get_note_errors)
    show ?thesis
    proof (cases "e = NoteNotFoundError")
      case True
      with Cons.prems g Inl
      have "validate_wikilinks_loop E ms (ws @ [broken_link_warning (strip (fst m))]) v1 = (r, v')"
        by (simp add: Let_def)
      from Cons.IH[OF this] f1 show ?thesis by simp
    next
      case False
      with Cons.prems g Inl e f1 show ?thesis by (auto simp: Let_def)
    qed
  next
    case (Inr n)
    show ?thesis
    proof (cases "map_option strip (snd m)")
      case None
      with Cons.prems g Inr have "validate_wikilinks_loop E ms ws v1 = (r, v')"
        by (simp add: Let_def)
      from Cons.IH[OF this] f1 show ?thesis by simp
    next
      case (Some sec)
      show ?thesis
      proof (cases "sec = []")
        case True
        with Cons.prems g Inr Some have "validate_wikilinks_loop E ms ws v1 = (r, v')"
          by (simp add: Let_def)
        from Cons.IH[OF this] f1 show ?thesis by simp
      next
        case False
        obtain r2 v2 where h: "get_headings E (strip (fst m)) v1 = (r2, v2)"
          by (cases "get_headings E (strip (fst m)) v1")
        from h have f2: "files v2 = files v1" by (rule get_headings_filesD)
        show ?thesis
        proof (cases r2)
          case (Inl e)
          with h have "e = NoteNotFoundError \<or> e = OSError \<or> e = AttributeError"
            by (auto dest: get_headings_errors)
          with Cons.prems g Inr Some False h Inl f1 f2 show ?thesis
            by (auto simp: Let_def)
        next
          case (Inr hs)
          note hs = Inr
          show ?thesis
          proof (cases "sec \<in> set (map text hs)")
            case True
            with Cons.prems g \<open>r1 = Inr n\<close> Some False h hs
            have "validate_wikilinks_loop E ms ws v2 = (r, v')"
              by (simp add: Let_def)
            from Cons.IH[OF this] f1 f2 show ?thesis by simp
          next
            case notin: False
            with Cons.prems g \<open>r1 = Inr n\<close> Some False h hs f1 f2 show ?thesis
              by (auto simp: Let_def)
          qed
        qed
      qed
    qed
  qed
qed

lemma validate_wikilinks_props:
  "validate_wikilinks E content v = (r, v') \<Longrightarrow>
   files v' = files v \<and>
   (\<forall>e. r = Inl e \<longrightarrow>
        e = BrokenLinkError \<or> e = NoteNotFoundError \<or> e = OSError \<or> e = AttributeError)"
  unfolding validate_wikilinks_def by (rule validate_wikilinks_loop_props)

lemma write_text_errors: "write_text fs p t = Inl e \<Longrightarrow> e = OSError"
  by (auto simp: write_text_def split: if_splits)

lemma validate_headings_loop_iff:
  "validate_headings_loop ranges i lines =
     (if \<exists>j<length lines. \<not> is_inside_code_block (i + j + 1) ranges \<and>
            (\<exists>lv t. heading_re_match (lines ! j) = Some (lv, t) \<and> cyrillic_search t)
      then Inl InvalidHeadingError else Inr ())"
proof (induction lines arbitrary: i)
  case Nil
  then show ?case by simp
next
  case (Cons ln rest)
  let ?P = "\<lambda>i lines j. \<not> is_inside_code_block (i + j + 1) ranges \<and>
            (\<exists>lv t. heading_re_match (lines ! j) = Some (lv, t) \<and> cyrillic_search t)"
  have shift: "(\<exists>j<length (ln # rest). ?P i (ln # rest) j) \<longleftrightarrow>
               ?P i (ln # rest) 0 \<or> (\<exists>j<length rest. ?P (i + 1) rest j)"
  proof
    assume "\<exists>j<length (ln # rest). ?P i (ln # rest) j"
    then obtain j where j: "j < length (ln # rest)" "?P i (ln # rest) j" by blast
    show "?P i (ln # rest) 0 \<or> (\<exists>j<length rest. ?P (i + 1) rest j)"
    proof (cases j)
      case 0
      with j show ?thesis by simp
    next
      case (Suc k)
      with j have "k < length rest" "?P (i + 1) rest k" by auto
      then show ?thesis by blast
    qed
  next
    assume "?P i (ln # rest) 0 \<or> (\<exists>j<length rest. ?P (i + 1) rest j)"
    then show "\<exists>j<length (ln # rest). ?P i (ln # rest) j"
    proof
      assume "?P i (ln # rest) 0"
      then show ?thesis by (intro exI[of _ 0]) simp
    next
      assume "\<exists>j<length rest. ?P (i + 1) rest j"
      then obtain k where "k < length rest" "?P (i + 1) rest k" by blast
      then show ?thesis by (intro exI[of _ "Suc k"]) simp
    qed
  qed
  show ?case
    unfolding shift
    by (simp add: Cons.IH split: option.splits) auto
qed

lemma validate_headings_iff:
  assumes "parse_code_blocks (split_nl c) = Inr (ranges, unclosed)"
  shows "validate_headings c =
     (if \<exists>j<length (split_nl c). \<not> is_inside_code_block (j + 1) ranges \<and>
            (\<exists>lv t. heading_re_match (split_nl c ! j) = Some (lv, t) \<and> cyrillic_search t)
      then Inl InvalidHeadingError else Inr ())"
  using assms validate_headings_loop_iff[of ranges 0 "split_nl c"]
  by (simp add: validate_headings_def Let_def)

lemma validate_headings_cases:
  "validate_headings c = Inl InvalidHeadingError \<or> validate_headings c = Inr ()"
proof -
  obtain ranges unclosed where "parse_code_blocks (split_nl c) = Inr (ranges, unclosed)"
    using parse_code_blocks_total by blast
  from validate_headings_iff[OF this] show ?thesis by (auto split: if_splits)
qed

lemma space_not_cyrillic: "is_space c \<Longrightarrow> \<not> (1024 \<le> c \<and> c \<le> 1279)"
  by (auto simp: is_space_def)

lemma cyrillic_search_append: "cyrillic_search (a @ b) \<longleftrightarrow> cyrillic_search a \<or> cyrillic_search b"
  by (simp add: cyrillic_search_def)

lemma cyrillic_search_hashes: "\<not> cyrillic_search (takeWhile (\<lambda>c. c = 35) s)"
  by (auto simp: cyrillic_search_def list_ex_iff dest: set_takeWhileD)

lemma cyrillic_search_spaces: "\<forall>c\<in>set s. is_space c \<Longrightarrow> \<not> cyrillic_search s"
  by (auto simp: cyrillic_search_def list_ex_iff dest: space_not_cyrillic)

lemma heading_text_cyrillic:
  assumes "heading_re_match ln = Some (lv, t)"
  shows "cyrillic_search t = cyrillic_search ln"
proof -
  let ?after = "dropWhile (\<lambda>c. c = 35) ln"
  let ?spaces = "takeWhile is_space ?after"
  let ?rest = "dropWhile is_space ?after"
  have ln: "ln = takeWhile (\<lambda>c. c = 35) ln @ ?spaces @ ?rest" by simp
  have sp: "\<not> cyrillic_search ?spaces"
    by (rule cyrillic_search_spaces) (auto dest: set_takeWhileD)
  have c: "cyrillic_search ln = cyrillic_search ?rest"
    by (subst ln) (simp only: cyrillic_search_append cyrillic_search_hashes sp simp_thms)
  show ?thesis
  proof (cases "?rest = []")
    case False
    with assms have "t = ?rest" by (auto simp: heading_re_match_def Let_def split: if_splits)
    with c show ?thesis by simp
  next
    case True
    with assms have t: "t = [last ?spaces]" and ne: "?spaces \<noteq> []"
      by (auto simp: heading_re_match_def Let_def split: if_splits)
    from ne have "last ?spaces \<in> set ?spaces" by simp
    then have "is_space (last ?spaces)" by (auto dest: set_takeWhileD)
    then have "\<not> cyrillic_search t" using t by (simp add: cyrillic_search_def space_not_cyrillic)
    moreover have "\<not> cyrillic_search ln"
    proof -
      from True have "cyrillic_search ?rest = cyrillic_search []" by (rule arg_cong)
      with c show ?thesis by (simp add: cyrillic_search_def)
    qed
    ultimately show ?thesis by simp
  qed
qed

text \<open>
  \<open>update\<close> raises \<open>InvalidHeadingError\<close> exactly when \<open>validate_headings\<close> rejects the new
  body, and \<open>append\<close> exactly when \<open>validate_headings\<close> rejects the text of the file as
  \<open>read_text\<close> returns it, followed by two newlines and the appended text.  In both cases
  the files are as before.
\<close>

lemma update_heading_check:
  assumes "get_note E nm v = (Inr nt, v1)"
  shows "(fst (update E nm content v) = Inl InvalidHeadingError \<longleftrightarrow>
            validate_headings content = Inl InvalidHeadingError) \<and>
         (validate_headings content = Inl InvalidHeadingError \<longrightarrow>
            files (snd (update E nm content v)) = files v)"
proof -
  have f1: "files v1 = files v" using assms by (rule get_note_filesD)
  from validate_headings_cases[of content] show ?thesis
  proof
    assume h: "validate_headings content = Inl InvalidHeadingError"
    then show ?thesis using assms f1
      by (simp add: update_def op_bind_def op_lift_def Let_def)
  next
    assume h: "validate_headings content = Inr ()"
    obtain r v2 where w: "validate_wikilinks E content v1 = (r, v2)"
      by (cases "validate_wikilinks E content v1")
    from validate_wikilinks_props[OF w]
    have e: "\<And>e. r = Inl e \<Longrightarrow> e \<noteq> InvalidHeadingError" by auto
    obtain ws where vw: "validate (serialize_note E (frontmatter nt) content) = Inr ws"
      using validate_total by blast
    show ?thesis
    proof (cases r)
      case (Inl e')
      with e[of e'] h assms w show ?thesis
        by (simp add: update_def op_bind_def op_lift_def Let_def)
    next
      case (Inr lw)
      with h assms w vw show ?thesis
        by (auto simp: update_def op_bind_def op_lift_def Let_def op_write_text_def
            op_refresh_def op_return_def split: sum.splits prod.splits
            dest: write_text_errors refresh_errors)
    qed
  qed
qed

lemma append_heading_check:
  assumes "get_note E nm v = (Inr nt, v1)" "read_text (files v) (path nt) = Inr current"
  shows "(fst (append E nm txt v) = Inl InvalidHeadingError \<longleftrightarrow>
            validate_headings (current @ u ''\<newline>\<newline>'' @ txt) = Inl InvalidHeadingError) \<and>
         (validate_headings (current @ u ''\<newline>\<newline>'' @ txt) = Inl InvalidHeadingError \<longrightarrow>
            files (snd (append E nm txt v)) = files v)"
proof -
  let ?new = "current @ u ''\<newline>\<newline>'' @ txt"
  have f1: "files v1 = files v" using assms(1) by (rule get_note_filesD)
  have rp: "resolve_path E nm v = (Inr (path nt), v1)"
    using assms(1) by (simp add: resolve_path_def op_bind_def op_return_def)
  have rd: "op_read_text (path nt) v1 = (Inr current, v1)"
    using assms(2) f1 by (simp add: op_read_text_def)
  from validate_headings_cases[of ?new] show ?thesis
  proof
    assume h: "validate_headings ?new = Inl InvalidHeadingError"
    then show ?thesis using rp rd f1
      by (simp add: append_def op_bind_def op_lift_def Let_def)
  next
    assume h: "validate_headings ?new = Inr ()"
    obtain r v2 where w: "validate_wikilinks E ?new v1 = (r, v2)"
      by (cases "validate_wikilinks E ?new v1")
    from validate_wikilinks_props[OF w]
    have e: "\<And>e. r = Inl e \<Longrightarrow> e \<noteq> InvalidHeadingError" by auto
    obtain ws where vw: "validate ?new = Inr ws"
      using validate_total by blast
    show ?thesis
    proof (cases r)
      case (Inl e')
      with e[of e'] h rp rd w show ?thesis
        by (simp add: append_def op_bind_def op_lift_def Let_def)
    next
      case (Inr lw)
      with h rp rd w vw show ?thesis
        by (auto simp: append_def op_bind_def op_lift_def Let_def op_write_text_def
            op_refresh_def op_return_def split: sum.splits prod.splits
            dest: write_text_errors refresh_errors)
    qed
  qed
qed

lemma parse_fm_comment:
  "yaml_safe_load E (u ''# '' @ [1046]) = YMap [] \<Longrightarrow>
   parse_note E ([u ''N.md''], File fm_comment_file) = Inr fm_comment_note"
proof -
  assume a: "yaml_safe_load E (u ''# '' @ [1046]) = YMap []"
  have m: "frontmatter_re_match fm_comment_file = Some (u ''# '' @ [1046], u ''body'')"
    by (simp add: frontmatter_re_match_def fm_comment_file_def u_def)
  have r: "crlf_to_lf (dropWhile (\<lambda>c. c = 65279) (universal_newlines fm_comment_file)) =
           fm_comment_file"
    by (simp add: fm_comment_file_def u_def)
  have w: "extract_wikilinks (u ''body'') = []"
    by (simp add: u_def wikilink_re_match_at_def)
  show ?thesis
    by (simp add: parse_note_def r m a extract_tags_def stem_N fm_comment_note_def w)
qed

lemma read_fm_comment:
  "read_text [([u ''N.md''], File fm_comment_file)] [u ''N.md''] = Inr fm_comment_file"
  by (simp add: read_text_def) (simp add: fm_comment_file_def u_def)

lemma headings_fm_comment:
  "validate_headings (fm_comment_file @ u ''\<newline>\<newline>'' @ u ''t'') = Inl InvalidHeadingError"
  by (simp add: fm_comment_file_def validate_headings_def parse_code_blocks_def fence_init_def
      fence_re_match_def is_inside_code_block_def heading_re_match_def is_space_def
      cyrillic_search_def u_def)

lemma headings_body_t:
  "validate_headings (u ''body\<newline>\<newline>t'') = Inr ()"
  by (simp add: validate_headings_def parse_code_blocks_def fence_init_def
      fence_re_match_def is_inside_code_block_def heading_re_match_def is_space_def
      cyrillic_search_def u_def)

lemma no_links_body_t: "wikilinks_with_section (u ''body\<newline>\<newline>t'') = []"
  by (simp add: wikilink_with_section_re_match_at_def u_def)

lemma parse_body_t:
  "parse_note E ([u ''N.md''], File (u ''body\<newline>\<newline>t'')) = Inr (plain_note (u ''body\<newline>\<newline>t''))"
  by (subst parse_note_plain)
     (simp_all add: frontmatter_re_match_def plain_note_def stem_N, simp_all add: u_def)

text \<open>
  Claim C7.  The file of the note \<open>N\<close> is a front-matter block that holds the YAML
  comment \<open>#\<close>, space, U+0416, and then the body \<open>body\<close>; a comment holds no value, so the
  front matter of the note is \<open>{}\<close>.  The full new body after \<open>append\<close> of \<open>t\<close> is \<open>body\<close>,
  an empty line, \<open>t\<close>: it has no heading line, and \<open>validate_headings\<close> accepts it.  Yet
  \<open>append\<close> raises \<open>InvalidHeadingError\<close> and writes nothing: it checks the text of the
  file, where the comment line of the front matter reads as a heading with a Cyrillic
  code point.  \<open>update\<close> with that same new body checks the body only and succeeds.
\<close>

theorem append_checks_front_matter:
  assumes "yaml_safe_load E (u ''# '' @ [1046]) = YMap []"
  shows "fst (get_note E (u ''N'') (vault_of [([u ''N.md''], File fm_comment_file)])) =
           Inr fm_comment_note \<and>
         body fm_comment_note = u ''body'' \<and>
         u ''body'' @ u ''\<newline>\<newline>'' @ u ''t'' = u ''body\<newline>\<newline>t'' \<and>
         validate_headings (u ''body\<newline>\<newline>t'') = Inr () \<and>
         fst (append E (u ''N'') (u ''t'') (vault_of [([u ''N.md''], File fm_comment_file)])) =
           Inl InvalidHeadingError \<and>
         files (snd (append E (u ''N'') (u ''t'')
                       (vault_of [([u ''N.md''], File fm_comment_file)]))) =
           [([u ''N.md''], File fm_comment_file)] \<and>
         (\<exists>ws. fst (update E (u ''N'') (u ''body\<newline>\<newline>t'')
                      (vault_of [([u ''N.md''], File fm_comment_file)])) =
                 Inr \<lparr>warnings = ws\<rparr>) \<and>
         files (snd (update E (u ''N'') (u ''body\<newline>\<newline>t'')
                       (vault_of [([u ''N.md''], File fm_comment_file)]))) =
           [([u ''N.md''], File (u ''body\<newline>\<newline>t''))]"
proof -
  let ?v = "vault_of [([u ''N.md''], File fm_comment_file)]"
  let ?v1 = "\<lparr>files = [([u ''N.md''], File fm_comment_file)],
              notes = Some [(u ''N'', fm_comment_note)],
              incoming_links = Some (build_incoming [(u ''N'', fm_comment_note)]),
              scans = 1\<rparr>"
  have g: "get_note E (u ''N'') ?v = (Inr fm_comment_note, ?v1)"
    by (rule get_note_single[OF parse_fm_comment[OF assms]])
  have b: "body fm_comment_note = u ''body''" "path fm_comment_note = [u ''N.md'']"
    "frontmatter fm_comment_note = []"
    by (simp_all add: fm_comment_note_def)
  have fv: "files ?v = [([u ''N.md''], File fm_comment_file)]" by (simp add: vault_of_def)
  have rd: "read_text (files ?v) (path fm_comment_note) = Inr fm_comment_file"
    by (simp add: fv b read_fm_comment)
  from append_heading_check[OF g rd, of "u ''t''"] headings_fm_comment
  have ap: "fst (append E (u ''N'') (u ''t'') ?v) = Inl InvalidHeadingError"
    "files (snd (append E (u ''N'') (u ''t'') ?v)) = [([u ''N.md''], File fm_comment_file)]"
    by (simp_all add: fv)
  obtain ws where w: "validate (u ''body\<newline>\<newline>t'') = Inr ws" using validate_total by blast
  have wr: "write_text [([u ''N.md''], File fm_comment_file)] [u ''N.md''] (u ''body\<newline>\<newline>t'') =
              Inr [([u ''N.md''], File (u ''body\<newline>\<newline>t''))]"
    by (simp add: write_text_def is_dir_def)
  have bn: "build_notes E [([u ''N.md''], File (u ''body\<newline>\<newline>t''))] =
              Inr [(u ''N'', plain_note (u ''body\<newline>\<newline>t''))]"
    by (simp add: build_notes_def scan_N parse_body_t plain_note_def)
  have rf: "refresh E (?v1\<lparr>files := [([u ''N.md''], File (u ''body\<newline>\<newline>t''))]\<rparr>) =
              (Inr (), built_single (u ''body\<newline>\<newline>t'')\<lparr>scans := 2\<rparr>)"
    by (subst refresh_built[where ns = "[(u ''N'', plain_note (u ''body\<newline>\<newline>t''))]"])
       (simp_all add: bn built_single_def)
  have up: "update E (u ''N'') (u ''body\<newline>\<newline>t'') ?v =
              (Inr \<lparr>warnings = ws\<rparr>, built_single (u ''body\<newline>\<newline>t'')\<lparr>scans := 2\<rparr>)"
    using rf
    by (simp add: update_def op_bind_def g b serialize_note_empty op_lift_def headings_body_t
        validate_wikilinks_def no_links_body_t op_return_def op_write_text_def wr
        op_refresh_def w)
  have j: "u ''body'' @ u ''\<newline>\<newline>'' @ u ''t'' = u ''body\<newline>\<newline>t''" by (simp add: u_def)
  have uf: "files (snd (update E (u ''N'') (u ''body\<newline>\<newline>t'') ?v)) =
              [([u ''N.md''], File (u ''body\<newline>\<newline>t''))]"
    by (simp add: up built_single_def)
  have ue: "\<exists>ws. fst (update E (u ''N'') (u ''body\<newline>\<newline>t'') ?v) = Inr \<lparr>warnings = ws\<rparr>"
    by (simp add: up)
  show ?thesis
    using g b(1) j headings_body_t ap uf ue by (intro conjI) simp_all
qed

text \<open>Claim C7 with the stand-in decoder, for which a comment is no value.\<close>

theorem append_checks_front_matter_witness:
  "yaml_safe_load plain_env (u ''# '' @ [1046]) = YMap [] \<and>
   validate_headings (u ''body\<newline>\<newline>t'') = Inr () \<and>
   fst (append plain_env (u ''N'') (u ''t'') (vault_of [([u ''N.md''], File fm_comment_file)])) =
     Inl InvalidHeadingError \<and>
   (\<exists>ws. fst (update plain_env (u ''N'') (u ''body\<newline>\<newline>t'')
                (vault_of [([u ''N.md''], File fm_comment_file)])) = Inr \<lparr>warnings = ws\<rparr>)"
proof -
  have a: "yaml_safe_load plain_env (u ''# '' @ [1046]) = YMap []"
    by (simp add: plain_env_def u_def)
  from append_checks_front_matter[OF a] a show ?thesis by simp
qed

section \<open>Errors and writes\<close>

lemma reads_only_fails_early: "reads_only m \<Longrightarrow> fails_early m"
  by (auto simp: reads_only_def fails_early_def)





































































end
